theory Spec2Isabelle
  imports Main
begin

section \<open>Gym slot allocation: the two allocators of the repository\<close>

text \<open>
  The repository holds two scripts, each defining a function \<^verbatim>\<open>allocate_slots\<close>:
  \<^item> \<^verbatim>\<open>Gym/allocator.py\<close> (the base variant, three preference columns), and
  \<^item> \<^verbatim>\<open>data/iiitk.py\<close> (the extended variant, nine preference columns, an
    email-domain check, trimmed labels, a guarded header extension).

  Both read a CSV file through \<^verbatim>\<open>csv.DictReader\<close>, walk the rows in order, mutate a
  dictionary of remaining capacities and write one row per applicant through
  \<^verbatim>\<open>csv.DictWriter\<close>. The model starts after tokenisation: the input file is the list
  of rows that \<^verbatim>\<open>csv.reader\<close> yields (each a list of cells, the header first, a blank
  line as the empty list), and the output file is the list of rows handed to
  \<^verbatim>\<open>csv.writer\<close>. Quoting and encoding are not modelled. A character of the model is a
  code point below 256.
\<close>

subsection \<open>Strings\<close>

text \<open>\<^verbatim>\<open>str.isspace\<close> on one character, for the code points below 256.\<close>

definition isspace :: "char \<Rightarrow> bool" where
  "isspace c = (let n = (of_char c :: nat) in
     (9 \<le> n \<and> n \<le> 13) \<or> (28 \<le> n \<and> n \<le> 32) \<or> n = 133 \<or> n = 160)"

text \<open>\<^verbatim>\<open>str.strip()\<close>: drop the whitespace at both ends.\<close>

definition strip :: "string \<Rightarrow> string" where
  "strip s = rev (dropWhile isspace (rev (dropWhile isspace s)))"

text \<open>\<^verbatim>\<open>str.lower()\<close>, for the code points below 256: the letters A to Z and the
  Latin-1 capitals (192 to 222 without the multiplication sign 215) move up by 32.\<close>

definition lower_char :: "char \<Rightarrow> char" where
  "lower_char c = (let n = (of_char c :: nat) in
     if (65 \<le> n \<and> n \<le> 90) \<or> (192 \<le> n \<and> n \<le> 214) \<or> (216 \<le> n \<and> n \<le> 222)
     then char_of (n + 32) else c)"

definition lower :: "string \<Rightarrow> string" where
  "lower s = map lower_char s"

text \<open>\<^verbatim>\<open>str.endswith(suffix)\<close>.\<close>

definition endswith :: "string \<Rightarrow> string \<Rightarrow> bool" where
  "endswith s suf = (length suf \<le> length s \<and> drop (length s - length suf) s = suf)"

subsection \<open>Rows as \<^verbatim>\<open>csv.DictReader\<close> builds them\<close>

text \<open>
  A row of \<^verbatim>\<open>DictReader\<close> is an insertion-ordered dictionary. Under a column name it
  holds the cell, or \<^verbatim>\<open>None\<close> (the default \<^verbatim>\<open>restval\<close>) when the line was too short
  to reach that column; the cells beyond the header are held as a list under the key
  \<^verbatim>\<open>None\<close> (the default \<^verbatim>\<open>restkey\<close>). The record keeps the named part as an
  association list in insertion order, a value \<open>None\<close> standing for Python's \<^verbatim>\<open>None\<close>,
  and the list under the key \<^verbatim>\<open>None\<close>, when there is one, in \<open>rest\<close>.
\<close>

record row =
  items :: "(string \<times> string option) list"
  rest :: "string list option"

text \<open>\<^verbatim>\<open>d[k] = v\<close> on an insertion-ordered dictionary: an existing key keeps its place,
  a new key goes to the end.\<close>

fun setitem :: "('k \<times> 'v) list \<Rightarrow> 'k \<Rightarrow> 'v \<Rightarrow> ('k \<times> 'v) list" where
  "setitem [] k v = [(k, v)]"
| "setitem ((k', v') # d) k v = (if k' = k then (k, v) # d else (k', v') # setitem d k v)"

text \<open>\<^verbatim>\<open>dict(zip(fieldnames, line))\<close>: pairs are stored left to right, a repeated column
  name overwriting the earlier cell.\<close>

fun dict_zip :: "(string \<times> string option) list \<Rightarrow> string list \<Rightarrow> string list
                 \<Rightarrow> (string \<times> string option) list" where
  "dict_zip d (k # ks) (v # vs) = dict_zip (setitem d k (Some v)) ks vs"
| "dict_zip d _ _ = d"

text \<open>The loop \<^verbatim>\<open>for key in fieldnames[lr:]: d[key] = restval\<close>.\<close>

fun fill_restval :: "(string \<times> string option) list \<Rightarrow> string list
                     \<Rightarrow> (string \<times> string option) list" where
  "fill_restval d [] = d"
| "fill_restval d (k # ks) = fill_restval (setitem d k None) ks"

text \<open>One step of \<^verbatim>\<open>DictReader.__next__\<close> on a non-blank line.\<close>

definition read_row :: "string list \<Rightarrow> string list \<Rightarrow> row" where
  "read_row fieldnames line =
     (let d = dict_zip [] fieldnames line;
          lf = length fieldnames;
          lr = length line
      in if lf < lr then \<lparr>items = d, rest = Some (drop lf line)\<rparr>
         else if lf > lr then \<lparr>items = fill_restval d (drop lr fieldnames), rest = None\<rparr>
         else \<lparr>items = d, rest = None\<rparr>)"

text \<open>All the rows the reader yields: blank lines (\<^verbatim>\<open>row == []\<close>) are skipped.\<close>

definition DictReader :: "string list \<Rightarrow> string list list \<Rightarrow> row list" where
  "DictReader fieldnames lines = map (read_row fieldnames) (filter (\<lambda>l. l \<noteq> []) lines)"

subsection \<open>Rows as \<^verbatim>\<open>csv.DictWriter\<close> writes them\<close>

datatype error = TypeError | KeyError string | AttributeError | ValueError

text \<open>
  \<^verbatim>\<open>DictWriter.writerow\<close> with the default \<^verbatim>\<open>extrasaction='raise'\<close>: a key of the row
  that is not a field name raises \<^verbatim>\<open>ValueError\<close> (the key \<^verbatim>\<open>None\<close> never is one);
  otherwise the cells are \<^verbatim>\<open>rowdict.get(key, '')\<close> in the order of the field names, and
  the underlying writer prints \<^verbatim>\<open>None\<close> as the empty string.
\<close>

definition cell :: "(string \<times> string option) list \<Rightarrow> string \<Rightarrow> string" where
  "cell d key = (case map_of d key of Some (Some s) \<Rightarrow> s | _ \<Rightarrow> [])"

definition writerow :: "string list \<Rightarrow> row \<Rightarrow> error + string list" where
  "writerow fieldnames rowdict =
     (if rest rowdict \<noteq> None \<or> (\<exists>k \<in> set (map fst (items rowdict)). k \<notin> set fieldnames)
      then Inl ValueError
      else Inr (map (cell (items rowdict)) fieldnames))"

subsection \<open>The state of a run\<close>

text \<open>The capacity dictionary and the rows written to the output file so far (the
  header line first).\<close>

record state =
  capacity :: "string \<rightharpoonup> int"
  outfile :: "string list list"

text \<open>\<^verbatim>\<open>allocated_slot if allocated_slot else "No slot allocated"\<close>: both \<^verbatim>\<open>None\<close> and
  the empty string are false.\<close>

definition outcome_of :: "string option \<Rightarrow> string" where
  "outcome_of allocated_slot =
     (case allocated_slot of
        None \<Rightarrow> ''No slot allocated''
      | Some s \<Rightarrow> if s = [] then ''No slot allocated'' else s)"

text \<open>\<^verbatim>\<open>row["Allocated Slot"] = v\<close>.\<close>

definition set_allocated :: "row \<Rightarrow> string \<Rightarrow> row" where
  "set_allocated r v = r\<lparr>items := setitem (items r) ''Allocated Slot'' (Some v)\<rparr>"

text \<open>
  \<^verbatim>\<open>for row in reader: ...\<close>, the body given as a function of the row and the state.
  An exception in the body ends the loop, and the run, with the state of that moment.
\<close>

fun for_rows :: "(row \<Rightarrow> state \<Rightarrow> state \<times> error option) \<Rightarrow> row list \<Rightarrow> state
                 \<Rightarrow> state \<times> error option" where
  "for_rows body [] st = (st, None)"
| "for_rows body (r # rs) st =
     (case body r st of
        (st', Some e) \<Rightarrow> (st', Some e)
      | (st', None) \<Rightarrow> for_rows body rs st')"

subsection \<open>The base variant (\<^verbatim>\<open>Gym/allocator.py\<close>)\<close>

definition capacity_gym :: "string \<rightharpoonup> int" where
  "capacity_gym =
     [''SLOT 1 (5:30AM TO 7:00 AM)'' \<mapsto> 5,
      ''SLOT 2 (7:00AM TO 8:30AM)'' \<mapsto> 7,
      ''SLOT 3 (4:00PM TO 5:30PM)'' \<mapsto> 12,
      ''SLOT 4 (5:30PM TO 7:00PM)'' \<mapsto> 5,
      ''SLOT 5 (7:00PM TO 8:30PM)'' \<mapsto> 0]"

definition pref_keys_gym :: "string list" where
  "pref_keys_gym = [''SLOT PREFERENCE : 1'', ''SLOT PREFERENCE : 2'', ''SLOT PREFERENCE : 3'']"

text \<open>
  The inner loop over the preference columns. \<^verbatim>\<open>row[pref_key]\<close> raises \<^verbatim>\<open>KeyError\<close>
  when the header has no such column; a cell that is \<^verbatim>\<open>None\<close> is not a key of the
  capacity dictionary. The result is the value of \<^verbatim>\<open>allocated_slot\<close> after the loop
  and the capacity dictionary.
\<close>

fun find_slot_gym :: "string list \<Rightarrow> row \<Rightarrow> (string \<rightharpoonup> int)
                      \<Rightarrow> error + (string option \<times> (string \<rightharpoonup> int))" where
  "find_slot_gym [] r cap = Inr (None, cap)"
| "find_slot_gym (pref_key # prefs) r cap =
     (case map_of (items r) pref_key of
        None \<Rightarrow> Inl (KeyError pref_key)
      | Some None \<Rightarrow> find_slot_gym prefs r cap
      | Some (Some slot) \<Rightarrow>
          (case cap slot of
             None \<Rightarrow> find_slot_gym prefs r cap
           | Some c \<Rightarrow>
               if c > 0 then Inr (Some slot, cap(slot \<mapsto> c - 1))
               else find_slot_gym prefs r cap))"

text \<open>The body of \<^verbatim>\<open>for row in reader\<close>. An exception leaves the state as it is at
  that moment: a \<^verbatim>\<open>ValueError\<close> of the writer comes after the decrement.\<close>

definition process_row_gym :: "string list \<Rightarrow> row \<Rightarrow> state \<Rightarrow> state \<times> error option" where
  "process_row_gym fieldnames r st =
     (case find_slot_gym pref_keys_gym r (capacity st) of
        Inl e \<Rightarrow> (st, Some e)
      | Inr (allocated_slot, cap') \<Rightarrow>
          (case writerow fieldnames (set_allocated r (outcome_of allocated_slot)) of
             Inl e \<Rightarrow> (st\<lparr>capacity := cap'\<rparr>, Some e)
           | Inr line \<Rightarrow> (\<lparr>capacity = cap', outfile = outfile st @ [line]\<rparr>, None)))"

text \<open>
  The whole function, from the tokenised input file. An empty file has no header:
  \<^verbatim>\<open>reader.fieldnames\<close> is \<^verbatim>\<open>None\<close> and \<^verbatim>\<open>None + [...]\<close> raises \<^verbatim>\<open>TypeError\<close>, the
  output file already opened and empty. Otherwise the header line is the input header
  with \<^verbatim>\<open>"Allocated Slot"\<close> appended, whatever the header holds.
\<close>

definition fieldnames_gym :: "string list \<Rightarrow> string list" where
  "fieldnames_gym header = header @ [''Allocated Slot'']"

definition allocate_slots_gym :: "string list list \<Rightarrow> state \<times> error option" where
  "allocate_slots_gym infile =
     (case infile of
        [] \<Rightarrow> (\<lparr>capacity = capacity_gym, outfile = []\<rparr>, Some TypeError)
      | header # lines \<Rightarrow>
          for_rows (process_row_gym (fieldnames_gym header)) (DictReader header lines)
            \<lparr>capacity = capacity_gym, outfile = [fieldnames_gym header]\<rparr>)"

subsection \<open>The extended variant (\<^verbatim>\<open>data/iiitk.py\<close>)\<close>

definition capacity_iiitk :: "string \<rightharpoonup> int" where
  "capacity_iiitk =
     [''SLOT 1 (4:30AM TO 5:30 AM)'' \<mapsto> 20,
      ''SLOT 2 (5:30AM TO 7:00 AM)'' \<mapsto> 2,
      ''SLOT 3 (7:00AM TO 8:30AM)'' \<mapsto> 3,
      ''SLOT 4 (2:30PM TO 4:00PM)'' \<mapsto> 35,
      ''SLOT 5 (4:00PM TO 5:30PM)'' \<mapsto> 3,
      ''SLOT 6 (5:30PM TO 7:00PM)'' \<mapsto> 1,
      ''SLOT 7 (7:00PM TO 8:30PM)'' \<mapsto> 1,
      ''SLOT 8 (8:30PM TO 10:00PM)'' \<mapsto> 35,
      ''SLOT 9 (10:00PM TO 11:30PM)'' \<mapsto> 35]"

text \<open>\<^verbatim>\<open>[f"SLOT PREFERENCE : {i}" for i in range(1, 10)]\<close>: the numbers 1 to 9 are one
  digit each.\<close>

definition preference_columns :: "string list" where
  "preference_columns = map (\<lambda>i. ''SLOT PREFERENCE : '' @ [char_of (48 + i)]) [1 ..< 10]"

text \<open>\<^verbatim>\<open>row.get(key, "").strip()\<close>: the default is taken only when the key is absent; a
  key that is present with the value \<^verbatim>\<open>None\<close> gives \<^verbatim>\<open>None\<close>, and \<^verbatim>\<open>None.strip()\<close>
  raises \<^verbatim>\<open>AttributeError\<close>.\<close>

definition get_strip :: "row \<Rightarrow> string \<Rightarrow> error + string" where
  "get_strip r key =
     (case map_of (items r) key of
        None \<Rightarrow> Inr (strip [])
      | Some None \<Rightarrow> Inl AttributeError
      | Some (Some s) \<Rightarrow> Inr (strip s))"

fun find_slot_iiitk :: "string list \<Rightarrow> row \<Rightarrow> (string \<rightharpoonup> int)
                        \<Rightarrow> error + (string option \<times> (string \<rightharpoonup> int))" where
  "find_slot_iiitk [] r cap = Inr (None, cap)"
| "find_slot_iiitk (pref # prefs) r cap =
     (case get_strip r pref of
        Inl e \<Rightarrow> Inl e
      | Inr slot \<Rightarrow>
          (case cap slot of
             None \<Rightarrow> find_slot_iiitk prefs r cap
           | Some c \<Rightarrow>
               if c > 0 then Inr (Some slot, cap(slot \<mapsto> c - 1))
               else find_slot_iiitk prefs r cap))"

definition valid_email :: "string \<Rightarrow> bool" where
  "valid_email email = endswith email ''@iiitk.ac.in''"

definition process_row_iiitk :: "string list \<Rightarrow> row \<Rightarrow> state \<Rightarrow> state \<times> error option" where
  "process_row_iiitk fieldnames r st =
     (case get_strip r ''Email'' of
        Inl e \<Rightarrow> (st, Some e)
      | Inr stripped \<Rightarrow>
          if \<not> valid_email (lower stripped) then
            (case writerow fieldnames (set_allocated r ''Invalid email domain'') of
               Inl e \<Rightarrow> (st, Some e)
             | Inr line \<Rightarrow> (st\<lparr>outfile := outfile st @ [line]\<rparr>, None))
          else
            (case find_slot_iiitk preference_columns r (capacity st) of
               Inl e \<Rightarrow> (st, Some e)
             | Inr (allocated_slot, cap') \<Rightarrow>
                 (case writerow fieldnames (set_allocated r (outcome_of allocated_slot)) of
                    Inl e \<Rightarrow> (st\<lparr>capacity := cap'\<rparr>, Some e)
                  | Inr line \<Rightarrow> (\<lparr>capacity = cap', outfile = outfile st @ [line]\<rparr>, None))))"

text \<open>The header is extended only when it has no \<^verbatim>\<open>"Allocated Slot"\<close> column yet. On an
  empty file \<^verbatim>\<open>"Allocated Slot" not in None\<close> raises \<^verbatim>\<open>TypeError\<close>.\<close>

definition fieldnames_iiitk :: "string list \<Rightarrow> string list" where
  "fieldnames_iiitk header =
     (if ''Allocated Slot'' \<notin> set header then header @ [''Allocated Slot''] else header)"

definition allocate_slots_iiitk :: "string list list \<Rightarrow> state \<times> error option" where
  "allocate_slots_iiitk infile =
     (case infile of
        [] \<Rightarrow> (\<lparr>capacity = capacity_iiitk, outfile = []\<rparr>, Some TypeError)
      | header # lines \<Rightarrow>
          for_rows (process_row_iiitk (fieldnames_iiitk header)) (DictReader header lines)
            \<lparr>capacity = capacity_iiitk, outfile = [fieldnames_iiitk header]\<rparr>)"

subsection \<open>Reading the results\<close>

text \<open>
  The output records of a run are the rows of the output file after its header line. The
  outcome of an output record is its cell under the (first) column named
  \<^verbatim>\<open>Allocated Slot\<close>, as a reader of the output file finds it.
\<close>

definition allocated_of :: "string list \<Rightarrow> string list \<Rightarrow> string" where
  "allocated_of header line =
     (case map_of (zip header line) ''Allocated Slot'' of Some v \<Rightarrow> v | None \<Rightarrow> [])"

fun records :: "string list list \<Rightarrow> string list list" where
  "records [] = []"
| "records (header # ls) = ls"

fun outcomes :: "string list list \<Rightarrow> string list" where
  "outcomes [] = []"
| "outcomes (header # ls) = map (allocated_of header) ls"

text \<open>A label is available in a capacity dictionary when it is a key with a capacity
  above zero: the test \<^verbatim>\<open>slot in capacity and capacity[slot] > 0\<close>.\<close>

definition available :: "(string \<rightharpoonup> int) \<Rightarrow> string \<Rightarrow> bool" where
  "available cap label = (case cap label of Some c \<Rightarrow> 0 < c | None \<Rightarrow> False)"

text \<open>
  The labels an applicant states, in rank order, as each variant reads them: the base
  variant takes the cell as it is, the extended variant trims it and reads a column
  that the header lacks as the empty label. A cell that is \<^verbatim>\<open>None\<close> states nothing.
\<close>

definition labels_gym :: "string list \<Rightarrow> row \<Rightarrow> string list" where
  "labels_gym prefs r =
     concat (map (\<lambda>k. case map_of (items r) k of Some (Some s) \<Rightarrow> [s] | _ \<Rightarrow> []) prefs)"

definition labels_iiitk :: "string list \<Rightarrow> row \<Rightarrow> string list" where
  "labels_iiitk prefs r =
     concat (map (\<lambda>k. case map_of (items r) k of
                          None \<Rightarrow> [strip []] | Some None \<Rightarrow> [] | Some (Some s) \<Rightarrow> [strip s]) prefs)"

text \<open>The first-fit rule in the words of the specification: the first stated label, in
  rank order, that is available.\<close>

definition first_fit :: "(string \<rightharpoonup> int) \<Rightarrow> string list \<Rightarrow> string option" where
  "first_fit cap labels = find (available cap) labels"

text \<open>The state in which applicant \<open>i\<close> of a file is processed: the state after the loop
  over the applicants before.\<close>

definition before_gym :: "string list \<Rightarrow> string list list \<Rightarrow> nat \<Rightarrow> state" where
  "before_gym header lines i =
     fst (for_rows (process_row_gym (fieldnames_gym header)) (take i (DictReader header lines))
            \<lparr>capacity = capacity_gym, outfile = [fieldnames_gym header]\<rparr>)"

definition before_iiitk :: "string list \<Rightarrow> string list list \<Rightarrow> nat \<Rightarrow> state" where
  "before_iiitk header lines i =
     fst (for_rows (process_row_iiitk (fieldnames_iiitk header)) (take i (DictReader header lines))
            \<lparr>capacity = capacity_iiitk, outfile = [fieldnames_iiitk header]\<rparr>)"

subsection \<open>Notions used in the proofs\<close>

text \<open>The two outcomes that are not slots.\<close>

definition sentinels :: "string set" where
  "sentinels = {''No slot allocated'', ''Invalid email domain''}"

text \<open>
  What one pass of either loop body does to the state: the capacity dictionary is left
  as it is or one entry above zero goes down by one; an exception writes nothing; a pass
  without exception writes one row, whose outcome is the decremented slot (or the
  text for no slot, when the decremented label is empty) or, when nothing was
  decremented, one of the two texts that are not slots.
\<close>

definition step_spec :: "string list \<Rightarrow> state \<Rightarrow> state \<times> error option \<Rightarrow> bool" where
  "step_spec fn st res =
     (let st' = fst res; err = snd res in
      (capacity st' = capacity st \<or>
       (\<exists>s c. capacity st s = Some c \<and> 0 < c \<and> capacity st' = (capacity st)(s \<mapsto> c - 1) \<and>
          (\<forall>line. outfile st' = outfile st @ [line] \<longrightarrow> allocated_of fn line = outcome_of (Some s)))) \<and>
      (case err of
         Some e \<Rightarrow> outfile st' = outfile st
       | None \<Rightarrow> \<exists>line. outfile st' = outfile st @ [line] \<and>
                   (capacity st' = capacity st \<longrightarrow> allocated_of fn line \<in> sentinels)))"

text \<open>The end of a loop body once the outcome is decided: the row is written, or the
  writer raises.\<close>

definition emit :: "string list \<Rightarrow> row \<Rightarrow> string \<Rightarrow> state \<Rightarrow> (string \<rightharpoonup> int) \<Rightarrow> state \<times> error option" where
  "emit fn r v st cap' =
     (case writerow fn (set_allocated r v) of
        Inl e \<Rightarrow> (st\<lparr>capacity := cap'\<rparr>, Some e)
      | Inr line \<Rightarrow> (\<lparr>capacity = cap', outfile = outfile st @ [line]\<rparr>, None))"


subsection \<open>Example inputs\<close>

text \<open>Rows, a header and start states at which the theorems below are evaluated.\<close>

definition ex_fn :: "string list" where
  "ex_fn = [''Email'', ''SLOT PREFERENCE : 1'', ''SLOT PREFERENCE : 2'',
            ''SLOT PREFERENCE : 3'', ''Allocated Slot'']"

definition ex_row_gym :: row where
  "ex_row_gym =
     \<lparr>items = [(''Email'', Some ''a@other.com''),
               (''SLOT PREFERENCE : 1'', Some ''SLOT 5 (7:00PM TO 8:30PM)''),
               (''SLOT PREFERENCE : 2'', Some ''SLOT 4 (5:30PM TO 7:00PM)''),
               (''SLOT PREFERENCE : 3'', Some ''SLOT 1 (5:30AM TO 7:00 AM)'')],
      rest = None\<rparr>"

definition ex_row_gym_short :: row where
  "ex_row_gym_short =
     \<lparr>items = [(''Email'', Some ''a@other.com''),
               (''SLOT PREFERENCE : 1'', Some ''SLOT 5 (7:00PM TO 8:30PM)''),
               (''SLOT PREFERENCE : 2'', Some ''SLOT 4 (5:30PM TO 7:00PM)'')],
      rest = None\<rparr>"

definition ex_row_iiitk :: row where
  "ex_row_iiitk =
     \<lparr>items = [(''Email'', Some ''  A@IIITK.AC.IN ''),
               (''SLOT PREFERENCE : 1'', Some ''typo''),
               (''SLOT PREFERENCE : 2'', Some '' SLOT 7 (7:00PM TO 8:30PM)  ''),
               (''SLOT PREFERENCE : 3'', Some ''SLOT 1 (4:30AM TO 5:30 AM)'')],
      rest = None\<rparr>"

definition ex_row_iiitk_short :: row where
  "ex_row_iiitk_short =
     \<lparr>items = [(''Email'', Some ''  A@IIITK.AC.IN ''),
               (''SLOT PREFERENCE : 1'', Some ''typo''),
               (''SLOT PREFERENCE : 2'', Some '' SLOT 7 (7:00PM TO 8:30PM)  ''),
               (''SLOT PREFERENCE : 3'', None)],
      rest = None\<rparr>"

definition start_gym :: state where
  "start_gym = \<lparr>capacity = capacity_gym, outfile = [ex_fn]\<rparr>"

definition start_iiitk :: state where
  "start_iiitk = \<lparr>capacity = capacity_iiitk, outfile = [ex_fn]\<rparr>"

definition ex_state_zero :: state where
  "ex_state_zero =
     \<lparr>capacity = [''SLOT 7 (7:00PM TO 8:30PM)'' \<mapsto> 0, ''SLOT 1 (4:30AM TO 5:30 AM)'' \<mapsto> 20],
      outfile = [ex_fn]\<rparr>"

definition ex_file_gym :: "string list list" where
  "ex_file_gym =
     [[''Name'', ''SLOT PREFERENCE : 1'', ''SLOT PREFERENCE : 2'', ''SLOT PREFERENCE : 3''],
      [''A'', ''SLOT 5 (7:00PM TO 8:30PM)'', ''SLOT 4 (5:30PM TO 7:00PM)'', ''''],
      [],
      [''B'', ''SLOT 4 (5:30PM TO 7:00PM)'', ''SLOT 5 (7:00PM TO 8:30PM)'', ''''],
      [''C'', ''SLOT 5 (7:00PM TO 8:30PM)'']]"

definition ex_file_iiitk :: "string list list" where
  "ex_file_iiitk =
     [[''Email'', ''SLOT PREFERENCE : 1'', ''SLOT PREFERENCE : 2''],
      [''a@iiitk.ac.in'', ''SLOT 6 (5:30PM TO 7:00PM)'', ''SLOT 7 (7:00PM TO 8:30PM)''],
      [''b@other.com'', ''SLOT 7 (7:00PM TO 8:30PM)'', ''''],
      ['' B@IIITK.AC.IN '', '' SLOT 6 (5:30PM TO 7:00PM) '', ''SLOT 7 (7:00PM TO 8:30PM)''],
      [''c@iiitk.ac.in'', ''SLOT 6 (5:30PM TO 7:00PM)'', ''SLOT 7 (7:00PM TO 8:30PM)'']]"

definition ex_file_annotated :: "string list list" where
  "ex_file_annotated =
     [[''Email'', ''SLOT PREFERENCE : 1'', ''Allocated Slot''],
      [''a@iiitk.ac.in'', ''SLOT 6 (5:30PM TO 7:00PM)'', ''No slot allocated'']]"

definition ex_file_gym_annotated :: "string list list" where
  "ex_file_gym_annotated =
     [[''SLOT PREFERENCE : 1'', ''SLOT PREFERENCE : 2'', ''SLOT PREFERENCE : 3'', ''Allocated Slot''],
      [''SLOT 5 (7:00PM TO 8:30PM)'', ''SLOT 4 (5:30PM TO 7:00PM)'', [], ''No slot allocated'']]"


definition ex_priority_header :: "string list" where
  "ex_priority_header = [''Email'', ''SLOT PREFERENCE : 1'']"

definition ex_priority_lines :: "string list list" where
  "ex_priority_lines =
     [[''a@other.com'', ''SLOT 6 (5:30PM TO 7:00PM)''],
      [''b@iiitk.ac.in'', ''SLOT 6 (5:30PM TO 7:00PM)'']]"

definition ex_queue_header :: "string list" where
  "ex_queue_header = [''SLOT PREFERENCE : 1'', ''SLOT PREFERENCE : 2'', ''SLOT PREFERENCE : 3'']"

definition ex_queue_lines :: "string list list" where
  "ex_queue_lines =
     replicate 6 [''SLOT 4 (5:30PM TO 7:00PM)'', ''SLOT 1 (5:30AM TO 7:00 AM)'', []]"

section \<open>Properties\<close>

subsection \<open>Dictionaries, reader and writer\<close>

lemma preference_columns_eq:
  "preference_columns =
     [''SLOT PREFERENCE : 1'', ''SLOT PREFERENCE : 2'', ''SLOT PREFERENCE : 3'',
      ''SLOT PREFERENCE : 4'', ''SLOT PREFERENCE : 5'', ''SLOT PREFERENCE : 6'',
      ''SLOT PREFERENCE : 7'', ''SLOT PREFERENCE : 8'', ''SLOT PREFERENCE : 9'']"
  by code_simp

lemma map_of_setitem: "map_of (setitem d k v) = (map_of d)(k \<mapsto> v)"
  by (induction d k v rule: setitem.induct) (auto simp: fun_eq_iff)

lemma keys_setitem: "fst ` set (setitem d k v) = insert k (fst ` set d)"
  by (induction d k v rule: setitem.induct) auto

lemma length_setitem_absent:
  "k \<notin> fst ` set d \<Longrightarrow> setitem d k v = d @ [(k, v)]"
  by (induction d k v rule: setitem.induct) auto

lemma cell_setitem_same: "cell (setitem d k (Some v)) k = v"
  by (simp add: cell_def map_of_setitem)

lemma cell_setitem_other: "k' \<noteq> k \<Longrightarrow> cell (setitem d k v) k' = cell d k'"
  by (simp add: cell_def map_of_setitem)

lemma keys_dict_zip: "fst ` set (dict_zip d ks vs) \<subseteq> fst ` set d \<union> set ks"
  by (induction d ks vs rule: dict_zip.induct) (auto simp: keys_setitem)

lemma keys_fill_restval: "fst ` set (fill_restval d ks) \<subseteq> fst ` set d \<union> set ks"
  by (induction d ks rule: fill_restval.induct) (auto simp: keys_setitem)

lemma keys_read_row: "fst ` set (items (read_row header line)) \<subseteq> set header"
proof -
  have a: "fst ` set (dict_zip [] header line) \<subseteq> set header"
    using keys_dict_zip [of "[]" header line] by simp
  have b: "fst ` set (fill_restval (dict_zip [] header line) (drop (length line) header)) \<subseteq> set header"
    using keys_fill_restval [of "dict_zip [] header line" "drop (length line) header"] a
      set_drop_subset [of "length line" header] by blast
  show ?thesis using a b by (simp add: read_row_def Let_def)
qed

lemma rest_read_row: "rest (read_row header line) = None \<longleftrightarrow> length line \<le> length header"
  by (simp add: read_row_def Let_def)

lemma writerow_Inr: "writerow fn r = Inr line \<Longrightarrow> line = map (cell (items r)) fn"
  by (auto simp: writerow_def split: if_splits)

lemma writerow_set_allocated:
  "writerow fn (set_allocated r v) =
     (if rest r = None \<and> fst ` set (items r) \<subseteq> set fn \<and> ''Allocated Slot'' \<in> set fn
      then Inr (map (cell (setitem (items r) ''Allocated Slot'' (Some v))) fn)
      else Inl ValueError)"
  by (auto simp: writerow_def set_allocated_def keys_setitem)

lemma allocated_of_written:
  "''Allocated Slot'' \<in> set fn \<Longrightarrow>
   allocated_of fn (map (cell (setitem d ''Allocated Slot'' (Some v))) fn) = v"
  by (simp add: allocated_of_def map_of_zip_map cell_setitem_same)

subsection \<open>The preference loops\<close>

lemma find_slot_gym_cases:
  "find_slot_gym prefs r cap = Inr (a, cap') \<Longrightarrow>
   (a = None \<and> cap' = cap) \<or>
   (\<exists>s c. a = Some s \<and> cap s = Some c \<and> 0 < c \<and> cap' = cap(s \<mapsto> c - 1))"
  by (induction prefs) (auto split: option.splits if_splits)

lemma find_slot_iiitk_cases:
  "find_slot_iiitk prefs r cap = Inr (a, cap') \<Longrightarrow>
   (a = None \<and> cap' = cap) \<or>
   (\<exists>s c. a = Some s \<and> cap s = Some c \<and> 0 < c \<and> cap' = cap(s \<mapsto> c - 1))"
  by (induction prefs) (auto split: option.splits if_splits sum.splits)

subsection \<open>One pass of a loop body\<close>

lemma no_slot_sentinel: "''No slot allocated'' \<in> sentinels"
  by (simp add: sentinels_def)

lemma invalid_sentinel: "''Invalid email domain'' \<in> sentinels"
  by (simp add: sentinels_def)

lemma outcome_of_None: "outcome_of None \<in> sentinels"
  by (simp add: outcome_of_def no_slot_sentinel)

lemma outcome_of_Some: "outcome_of (Some s) = s \<or> outcome_of (Some s) \<in> sentinels"
  by (simp add: outcome_of_def no_slot_sentinel)

lemma emit_cases:
  assumes "''Allocated Slot'' \<in> set fn"
  shows "(emit fn r v st cap' = (st\<lparr>capacity := cap'\<rparr>, Some ValueError)) \<or>
         (\<exists>line. emit fn r v st cap' = (\<lparr>capacity = cap', outfile = outfile st @ [line]\<rparr>, None)
            \<and> allocated_of fn line = v)"
  using assms by (simp add: emit_def writerow_set_allocated allocated_of_written)

lemma step_spec_emit_same:
  assumes "''Allocated Slot'' \<in> set fn" "v \<in> sentinels"
  shows "step_spec fn st (emit fn r v st (capacity st))"
  using emit_cases [OF assms(1), of r v st "capacity st"] assms(2)
  by (auto simp: step_spec_def)

lemma upd_dec_neq:
  fixes cap :: "string \<rightharpoonup> int"
  assumes "cap s = Some c"
  shows "cap(s \<mapsto> c - 1) \<noteq> cap"
proof
  assume "cap(s \<mapsto> c - 1) = cap"
  then have "(cap(s \<mapsto> c - 1)) s = cap s" by simp
  with assms show False by simp
qed

lemma step_spec_emit_dec:
  assumes fn: "''Allocated Slot'' \<in> set fn" and c: "capacity st s = Some c" "0 < c"
  shows "step_spec fn st (emit fn r (outcome_of (Some s)) st ((capacity st)(s \<mapsto> c - 1)))"
proof -
  let ?cap' = "(capacity st)(s \<mapsto> c - 1)"
  let ?res = "emit fn r (outcome_of (Some s)) st ?cap'"
  have neq: "?cap' \<noteq> capacity st" using c(1) by (rule upd_dec_neq [of "capacity st" s c])
  from emit_cases [OF fn, of r "outcome_of (Some s)" st ?cap']
  show ?thesis
  proof (elim disjE exE conjE)
    assume e: "?res = (st\<lparr>capacity := ?cap'\<rparr>, Some ValueError)"
    have "\<exists>s' c'. capacity st s' = Some c' \<and> 0 < c' \<and> ?cap' = (capacity st)(s' \<mapsto> c' - 1) \<and>
          (\<forall>line. outfile st = outfile st @ [line] \<longrightarrow> allocated_of fn line = outcome_of (Some s'))"
      using c by (intro exI [of _ s] exI [of _ c]) simp
    then show ?thesis by (simp add: step_spec_def e)
  next
    fix line
    assume e: "?res = (\<lparr>capacity = ?cap', outfile = outfile st @ [line]\<rparr>, None)"
      and a: "allocated_of fn line = outcome_of (Some s)"
    have "\<exists>s' c'. capacity st s' = Some c' \<and> 0 < c' \<and> ?cap' = (capacity st)(s' \<mapsto> c' - 1) \<and>
          (\<forall>l. outfile st @ [line] = outfile st @ [l] \<longrightarrow> allocated_of fn l = outcome_of (Some s'))"
      using c a by (intro exI [of _ s] exI [of _ c]) simp
    then show ?thesis using neq by (simp add: step_spec_def e)
  qed
qed

lemma step_spec_error: "step_spec fn st (st, Some e)"
  by (simp add: step_spec_def)

lemma process_row_gym_emit:
  "process_row_gym fn r st =
     (case find_slot_gym pref_keys_gym r (capacity st) of
        Inl e \<Rightarrow> (st, Some e)
      | Inr (a, cap') \<Rightarrow> emit fn r (outcome_of a) st cap')"
  by (simp add: process_row_gym_def emit_def split: sum.splits prod.splits)

lemma process_row_iiitk_emit:
  "process_row_iiitk fn r st =
     (case get_strip r ''Email'' of
        Inl e \<Rightarrow> (st, Some e)
      | Inr stripped \<Rightarrow>
          if \<not> valid_email (lower stripped) then emit fn r ''Invalid email domain'' st (capacity st)
          else
            (case find_slot_iiitk preference_columns r (capacity st) of
               Inl e \<Rightarrow> (st, Some e)
             | Inr (a, cap') \<Rightarrow> emit fn r (outcome_of a) st cap'))"
  by (simp add: process_row_iiitk_def emit_def split: sum.splits prod.splits)

lemma step_spec_found:
  assumes "''Allocated Slot'' \<in> set fn"
    and "(a = None \<and> cap' = capacity st) \<or>
         (\<exists>s c. a = Some s \<and> capacity st s = Some c \<and> 0 < c \<and> cap' = (capacity st)(s \<mapsto> c - 1))"
  shows "step_spec fn st (emit fn r (outcome_of a) st cap')"
  using assms(2)
proof (elim disjE conjE exE)
  assume "a = None" "cap' = capacity st"
  then show ?thesis using step_spec_emit_same [OF assms(1) outcome_of_None] by simp
next
  fix s c assume "a = Some s" "capacity st s = Some c" "0 < c" "cap' = (capacity st)(s \<mapsto> c - 1)"
  then show ?thesis using step_spec_emit_dec [OF assms(1)] by simp
qed

lemma step_spec_gym:
  assumes "''Allocated Slot'' \<in> set fn"
  shows "step_spec fn st (process_row_gym fn r st)"
proof (cases "find_slot_gym pref_keys_gym r (capacity st)")
  case (Inl e)
  then show ?thesis by (simp add: process_row_gym_emit step_spec_error)
next
  case (Inr p)
  obtain a cap' where p: "p = (a, cap')" by (cases p)
  show ?thesis
    using step_spec_found [OF assms find_slot_gym_cases [OF Inr [unfolded p]]]
    by (simp add: process_row_gym_emit Inr p)
qed

lemma step_spec_iiitk:
  assumes "''Allocated Slot'' \<in> set fn"
  shows "step_spec fn st (process_row_iiitk fn r st)"
proof (cases "get_strip r ''Email''")
  case (Inl e)
  then show ?thesis by (simp add: process_row_iiitk_emit step_spec_error)
next
  case em: (Inr email)
  show ?thesis
  proof (cases "valid_email (lower email)")
    case False
    then show ?thesis
      using step_spec_emit_same [OF assms invalid_sentinel]
      by (simp add: process_row_iiitk_emit em)
  next
    case v: True
    show ?thesis
    proof (cases "find_slot_iiitk preference_columns r (capacity st)")
      case (Inl e)
      then show ?thesis using v by (simp add: process_row_iiitk_emit em step_spec_error)
    next
      case (Inr p)
      obtain a cap' where p: "p = (a, cap')" by (cases p)
      show ?thesis
        using step_spec_found [OF assms find_slot_iiitk_cases [OF Inr [unfolded p]]] v
        by (simp add: process_row_iiitk_emit em Inr p)
    qed
  qed
qed

lemma for_rows_append:
  "for_rows body (xs @ ys) st =
     (case for_rows body xs st of
        (st', Some e) \<Rightarrow> (st', Some e)
      | (st', None) \<Rightarrow> for_rows body ys st')"
  by (induction xs arbitrary: st) (auto split: prod.splits option.splits)

text \<open>Consequences of the step specification for one row.\<close>

lemma step_out:
  assumes "step_spec fn st (st', err)"
  shows "case err of Some e \<Rightarrow> outfile st' = outfile st
         | None \<Rightarrow> \<exists>line. outfile st' = outfile st @ [line]"
  using assms by (auto simp: step_spec_def split: option.splits)

lemma step_cap:
  assumes s: "step_spec fn st (st', err)" and c: "capacity st S = Some c"
  shows "\<exists>c'. capacity st' S = Some c' \<and> c' \<le> c \<and> c - 1 \<le> c' \<and> (0 \<le> c \<longrightarrow> 0 \<le> c')"
proof -
  from s have "capacity st' = capacity st \<or>
      (\<exists>s c. capacity st s = Some c \<and> 0 < c \<and> capacity st' = (capacity st)(s \<mapsto> c - 1))"
    by (auto simp: step_spec_def)
  then show ?thesis
  proof (elim disjE exE conjE)
    assume "capacity st' = capacity st"
    then show ?thesis using c by simp
  next
    fix s k assume k: "capacity st s = Some k" "0 < k" "capacity st' = (capacity st)(s \<mapsto> k - 1)"
    show ?thesis
    proof (cases "s = S")
      case True
      with k c show ?thesis by simp
    next
      case False
      with k c show ?thesis by simp
    qed
  qed
qed

lemma step_cap_back:
  assumes s: "step_spec fn st (st', err)" and c: "capacity st' S = Some c'"
  shows "\<exists>c. capacity st S = Some c \<and> c' \<le> c"
proof -
  from s have "capacity st' = capacity st \<or>
      (\<exists>s c. capacity st s = Some c \<and> 0 < c \<and> capacity st' = (capacity st)(s \<mapsto> c - 1))"
    by (auto simp: step_spec_def)
  then show ?thesis
  proof (elim disjE exE conjE)
    assume "capacity st' = capacity st"
    then show ?thesis using c by simp
  next
    fix s k assume k: "capacity st s = Some k" "0 < k" "capacity st' = (capacity st)(s \<mapsto> k - 1)"
    show ?thesis
    proof (cases "s = S")
      case True
      with k c show ?thesis by simp
    next
      case False
      with k c show ?thesis by simp
    qed
  qed
qed

lemma step_line:
  assumes s: "step_spec fn st (st', err)" and l: "outfile st' = outfile st @ [line]"
  shows "allocated_of fn line \<in> sentinels \<or>
         (\<exists>c. capacity st (allocated_of fn line) = Some c \<and> 0 < c \<and>
              capacity st' = (capacity st)(allocated_of fn line \<mapsto> c - 1))"
proof -
  have err: "err = None" using s l by (auto simp: step_spec_def split: option.splits)
  from s have "capacity st' = capacity st \<or>
      (\<exists>s c. capacity st s = Some c \<and> 0 < c \<and> capacity st' = (capacity st)(s \<mapsto> c - 1) \<and>
          (\<forall>line. outfile st' = outfile st @ [line] \<longrightarrow> allocated_of fn line = outcome_of (Some s)))"
    by (auto simp: step_spec_def)
  then show ?thesis
  proof (elim disjE exE conjE)
    assume same: "capacity st' = capacity st"
    from s err l same show ?thesis by (auto simp: step_spec_def)
  next
    fix s k assume k: "capacity st s = Some k" "0 < k" "capacity st' = (capacity st)(s \<mapsto> k - 1)"
      and a: "\<forall>line. outfile st' = outfile st @ [line] \<longrightarrow> allocated_of fn line = outcome_of (Some s)"
    from a l have o: "allocated_of fn line = outcome_of (Some s)" by simp
    from outcome_of_Some [of s] show ?thesis
    proof
      assume "outcome_of (Some s) = s"
      with o k show ?thesis by simp
    next
      assume "outcome_of (Some s) \<in> sentinels"
      with o show ?thesis by simp
    qed
  qed
qed

subsection \<open>The loop over the rows\<close>

lemma loop_out:
  assumes step: "\<And>r st. step_spec fn st (body r st)"
  shows "for_rows body rows st = (st', err) \<Longrightarrow>
         \<exists>new. outfile st' = outfile st @ new \<and>
           (case err of None \<Rightarrow> length new = length rows | Some e \<Rightarrow> length new < length rows)"
proof (induction rows arbitrary: st)
  case Nil
  then show ?case by simp
next
  case (Cons r rs)
  obtain st1 e1 where b: "body r st = (st1, e1)" by (cases "body r st")
  have so: "case e1 of Some e \<Rightarrow> outfile st1 = outfile st
            | None \<Rightarrow> \<exists>line. outfile st1 = outfile st @ [line]"
    using step_out [of fn st st1 e1] step [of st r] b by simp
  show ?case
  proof (cases e1)
    case (Some e)
    with Cons.prems b have "st' = st1" "err = Some e" by simp_all
    with so Some show ?thesis by simp
  next
    case None
    with so obtain line where l: "outfile st1 = outfile st @ [line]" by auto
    from Cons.prems b None have "for_rows body rs st1 = (st', err)" by simp
    from Cons.IH [OF this] obtain new where
      n: "outfile st' = outfile st1 @ new"
         "case err of None \<Rightarrow> length new = length rs | Some e \<Rightarrow> length new < length rs"
      by auto
    have "outfile st' = outfile st @ (line # new)" using n(1) l by simp
    moreover have "case err of None \<Rightarrow> length (line # new) = length (r # rs)
                   | Some e \<Rightarrow> length (line # new) < length (r # rs)"
      using n(2) by (simp split: option.splits)
    ultimately show ?thesis by blast
  qed
qed

lemma loop_cap:
  assumes step: "\<And>r st. step_spec fn st (body r st)"
  shows "for_rows body rows st = (st', err) \<Longrightarrow> outfile st' = outfile st @ new \<Longrightarrow>
         capacity st S = Some c \<Longrightarrow>
         \<exists>c'. capacity st' S = Some c' \<and> c' \<le> c \<and> (0 \<le> c \<longrightarrow> 0 \<le> c') \<and>
              (S \<notin> sentinels \<longrightarrow> int (count_list (map (allocated_of fn) new) S) \<le> c - c')"
proof (induction rows arbitrary: st new c)
  case Nil
  then show ?case by simp
next
  case (Cons r rs)
  obtain st1 e1 where b: "body r st = (st1, e1)" by (cases "body r st")
  have sp: "step_spec fn st (st1, e1)" using step [of st r] b by simp
  from step_cap [OF sp Cons.prems(3)] obtain c1 where
    c1: "capacity st1 S = Some c1" "c1 \<le> c" "0 \<le> c \<longrightarrow> 0 \<le> c1" by blast
  show ?case
  proof (cases e1)
    case (Some e)
    with Cons.prems(1) b have eq: "st' = st1" "err = Some e" by simp_all
    from step_out [OF sp] Some have "outfile st1 = outfile st" by simp
    with Cons.prems(2) eq have "new = []" by simp
    with c1 eq show ?thesis by simp
  next
    case None
    with step_out [OF sp] obtain line where l: "outfile st1 = outfile st @ [line]" by auto
    from Cons.prems(1) b None have run: "for_rows body rs st1 = (st', err)" by simp
    from loop_out [of fn body, OF step run] obtain new' where
      n': "outfile st' = outfile st1 @ new'" by blast
    with l Cons.prems(2) have new: "new = line # new'" by simp
    from Cons.IH [OF run n' c1(1)] obtain c' where
      c': "capacity st' S = Some c'" "c' \<le> c1" "0 \<le> c1 \<longrightarrow> 0 \<le> c'"
          "S \<notin> sentinels \<longrightarrow> int (count_list (map (allocated_of fn) new') S) \<le> c1 - c'"
      by blast
    have cnt: "S \<notin> sentinels \<longrightarrow> int (count_list (map (allocated_of fn) new) S) \<le> c - c'"
    proof (cases "allocated_of fn line = S \<and> S \<notin> sentinels")
      case True
      with step_line [OF sp l] obtain k where
        k: "capacity st S = Some k" "capacity st1 = (capacity st)(S \<mapsto> k - 1)" by auto
      with Cons.prems(3) c1(1) have "c1 = c - 1" by simp
      with c'(4) True show ?thesis by (simp add: new)
    next
      case False
      with c'(4) c1(2) show ?thesis by (auto simp: new)
    qed
    from c' c1 cnt show ?thesis by auto
  qed
qed

lemma loop_outcomes:
  assumes step: "\<And>r st. step_spec fn st (body r st)"
  shows "for_rows body rows st = (st', err) \<Longrightarrow> outfile st' = outfile st @ new \<Longrightarrow>
         line \<in> set new \<Longrightarrow>
         allocated_of fn line \<in> sentinels \<or>
         (\<exists>c. capacity st (allocated_of fn line) = Some c \<and> 0 < c)"
proof (induction rows arbitrary: st new)
  case Nil
  then show ?case by simp
next
  case (Cons r rs)
  obtain st1 e1 where b: "body r st = (st1, e1)" by (cases "body r st")
  have sp: "step_spec fn st (st1, e1)" using step [of st r] b by simp
  show ?case
  proof (cases e1)
    case (Some e)
    with Cons.prems(1) b have eq: "st' = st1" by simp
    from step_out [OF sp] Some have "outfile st1 = outfile st" by simp
    with Cons.prems(2) eq have "new = []" by simp
    with Cons.prems(3) show ?thesis by simp
  next
    case None
    with step_out [OF sp] obtain l1 where l: "outfile st1 = outfile st @ [l1]" by auto
    from Cons.prems(1) b None have run: "for_rows body rs st1 = (st', err)" by simp
    from loop_out [of fn body, OF step run] obtain new' where
      n': "outfile st' = outfile st1 @ new'" by blast
    with l Cons.prems(2) have new: "new = l1 # new'" by simp
    show ?thesis
    proof (cases "line = l1")
      case True
      with step_line [OF sp l] show ?thesis by auto
    next
      case False
      with Cons.prems(3) new have "line \<in> set new'" by simp
      from Cons.IH [OF run n' this] show ?thesis
      proof
        assume "allocated_of fn line \<in> sentinels"
        then show ?thesis ..
      next
        assume "\<exists>c. capacity st1 (allocated_of fn line) = Some c \<and> 0 < c"
        then obtain c where c: "capacity st1 (allocated_of fn line) = Some c" "0 < c" by blast
        from step_cap_back [OF sp c(1)] c(2) show ?thesis by auto
      qed
    qed
  qed
qed

lemma loop_nth:
  assumes step: "\<And>r st. step_spec fn st (body r st)"
  shows "for_rows body rows st = (st', err) \<Longrightarrow> outfile st' = outfile st @ new \<Longrightarrow>
         i < length new \<Longrightarrow>
         i < length rows \<and>
         (\<exists>sti sti'. for_rows body (take i rows) st = (sti, None) \<and>
            outfile sti = outfile st @ take i new \<and>
            body (rows ! i) sti = (sti', None) \<and>
            outfile sti' = outfile sti @ [new ! i] \<and>
            for_rows body (drop (Suc i) rows) sti' = (st', err))"
proof (induction rows arbitrary: st new i)
  case Nil
  then show ?case by simp
next
  case (Cons r rs)
  obtain st1 e1 where b: "body r st = (st1, e1)" by (cases "body r st")
  have sp: "step_spec fn st (st1, e1)" using step [of st r] b by simp
  show ?case
  proof (cases e1)
    case (Some e)
    with Cons.prems(1) b have eq: "st' = st1" by simp
    from step_out [OF sp] Some have "outfile st1 = outfile st" by simp
    with Cons.prems(2) eq have "new = []" by simp
    with Cons.prems(3) show ?thesis by simp
  next
    case None
    with step_out [OF sp] obtain l1 where l: "outfile st1 = outfile st @ [l1]" by auto
    from Cons.prems(1) b None have run: "for_rows body rs st1 = (st', err)" by simp
    from loop_out [of fn body, OF step run] obtain new' where
      n': "outfile st' = outfile st1 @ new'" by blast
    with l Cons.prems(2) have new: "new = l1 # new'" by simp
    show ?thesis
    proof (cases i)
      case 0
      with b None l new run show ?thesis by simp
    next
      case (Suc j)
      with Cons.prems(3) new have j: "j < length new'" by simp
      from Cons.IH [OF run n' j] obtain sti sti' where
        ih: "j < length rs" "for_rows body (take j rs) st1 = (sti, None)"
            "outfile sti = outfile st1 @ take j new'"
            "body (rs ! j) sti = (sti', None)"
            "outfile sti' = outfile sti @ [new' ! j]"
            "for_rows body (drop (Suc j) rs) sti' = (st', err)"
        by blast
      have "for_rows body (take i (r # rs)) st = (sti, None)"
        using ih(2) b None Suc by simp
      moreover have "outfile sti = outfile st @ take i new"
        using ih(3) l new Suc by simp
      moreover have "body ((r # rs) ! i) sti = (sti', None)" using ih(4) Suc by simp
      moreover have "outfile sti' = outfile sti @ [new ! i]" using ih(5) new Suc by simp
      moreover have "for_rows body (drop (Suc i) (r # rs)) sti' = (st', err)"
        using ih(6) Suc by simp
      moreover have "i < length (r # rs)" using ih(1) Suc by simp
      ultimately show ?thesis by blast
    qed
  qed
qed

subsection \<open>The configured tables and headers\<close>

lemma capacity_gym_keys:
  "capacity_gym S = Some c \<Longrightarrow> 0 \<le> c \<and> S \<notin> sentinels \<and> S \<noteq> []"
  by (auto simp: capacity_gym_def sentinels_def split: if_splits)

lemma capacity_iiitk_keys:
  "capacity_iiitk S = Some c \<Longrightarrow> 0 < c \<and> S \<notin> sentinels \<and> S \<noteq> []"
  by (auto simp: capacity_iiitk_def sentinels_def split: if_splits)

lemma fieldnames_gym_has: "''Allocated Slot'' \<in> set (fieldnames_gym header)"
  by (simp add: fieldnames_gym_def)

lemma fieldnames_iiitk_has: "''Allocated Slot'' \<in> set (fieldnames_iiitk header)"
  by (simp add: fieldnames_iiitk_def)

subsection \<open>Whole runs\<close>

lemma run_count:
  assumes step: "\<And>r st. step_spec fn st (body r st)"
    and run: "for_rows body rows \<lparr>capacity = cap, outfile = [fn]\<rparr> = (st', err)"
    and c: "cap S = Some c" "0 \<le> c" "S \<notin> sentinels"
  shows "int (count_list (outcomes (outfile st')) S) \<le> c"
proof -
  let ?st = "\<lparr>capacity = cap, outfile = [fn]\<rparr>"
  from loop_out [of fn body, OF step run] obtain new where
    new: "outfile st' = outfile ?st @ new" by blast
  have "capacity ?st S = Some c" using c(1) by simp
  from loop_cap [of fn body, OF step run new this] c(2,3) obtain c' where
    "0 \<le> c'" "int (count_list (map (allocated_of fn) new) S) \<le> c - c'" by auto
  moreover have "outcomes (outfile st') = map (allocated_of fn) new" using new by simp
  ultimately show ?thesis by simp
qed

section \<open>The claims\<close>

text \<open>
  C1 (capacity invariant). In every run of either variant, and for every slot \<open>S\<close> of
  the configured capacity table with initial capacity \<open>c\<close>, the number of output
  records whose outcome is \<open>S\<close> is at most \<open>c\<close>. The output records are the rows of the
  output file after its header, also when the run ends in an exception.
\<close>

theorem capacity_invariant:
  "(capacity_gym S = Some c \<longrightarrow>
      int (count_list (outcomes (outfile (fst (allocate_slots_gym infile)))) S) \<le> c) \<and>
   (capacity_iiitk S = Some c \<longrightarrow>
      int (count_list (outcomes (outfile (fst (allocate_slots_iiitk infile)))) S) \<le> c)"
proof (intro conjI impI)
  assume c: "capacity_gym S = Some c"
  note k = capacity_gym_keys [OF c]
  show "int (count_list (outcomes (outfile (fst (allocate_slots_gym infile)))) S) \<le> c"
  proof (cases infile)
    case Nil
    then show ?thesis using k by (simp add: allocate_slots_gym_def)
  next
    case (Cons header lines)
    let ?fn = "fieldnames_gym header"
    obtain st' err where run: "for_rows (process_row_gym ?fn) (DictReader header lines)
        \<lparr>capacity = capacity_gym, outfile = [?fn]\<rparr> = (st', err)" by (meson surj_pair)
    have "int (count_list (outcomes (outfile st')) S) \<le> c"
      using run_count [of ?fn "process_row_gym ?fn", OF step_spec_gym [OF fieldnames_gym_has] run c] k
      by simp
    then show ?thesis using run Cons by (simp add: allocate_slots_gym_def)
  qed
next
  assume c: "capacity_iiitk S = Some c"
  note k = capacity_iiitk_keys [OF c]
  show "int (count_list (outcomes (outfile (fst (allocate_slots_iiitk infile)))) S) \<le> c"
  proof (cases infile)
    case Nil
    then show ?thesis using k by (simp add: allocate_slots_iiitk_def)
  next
    case (Cons header lines)
    let ?fn = "fieldnames_iiitk header"
    obtain st' err where run: "for_rows (process_row_iiitk ?fn) (DictReader header lines)
        \<lparr>capacity = capacity_iiitk, outfile = [?fn]\<rparr> = (st', err)" by (meson surj_pair)
    have "int (count_list (outcomes (outfile st')) S) \<le> c"
      using run_count [of ?fn "process_row_iiitk ?fn", OF step_spec_iiitk [OF fieldnames_iiitk_has] run c] k
      by simp
    then show ?thesis using run Cons by (simp add: allocate_slots_iiitk_def)
  qed
qed

theorem capacity_invariant_witness:
  "capacity_gym ''SLOT 4 (5:30PM TO 7:00PM)'' = Some 5 \<and>
   int (count_list (outcomes (outfile (fst (allocate_slots_gym
     [[''Name'', ''SLOT PREFERENCE : 1'', ''SLOT PREFERENCE : 2'', ''SLOT PREFERENCE : 3''],
      [''A'', ''SLOT 4 (5:30PM TO 7:00PM)'', ''SLOT 5 (7:00PM TO 8:30PM)'', ''''],
      [''B'', ''SLOT 5 (7:00PM TO 8:30PM)'', ''SLOT 4 (5:30PM TO 7:00PM)'', '''']]))))
     ''SLOT 4 (5:30PM TO 7:00PM)'') \<le> 5 \<and>
   capacity_iiitk ''SLOT 6 (5:30PM TO 7:00PM)'' = Some 1 \<and>
   int (count_list (outcomes (outfile (fst (allocate_slots_iiitk
     [[''Email'', ''SLOT PREFERENCE : 1''],
      [''a@iiitk.ac.in'', ''SLOT 6 (5:30PM TO 7:00PM)''],
      [''b@iiitk.ac.in'', ''SLOT 6 (5:30PM TO 7:00PM)'']]))))
     ''SLOT 6 (5:30PM TO 7:00PM)'') \<le> 1"
  using capacity_invariant [of "''SLOT 4 (5:30PM TO 7:00PM)''" 5
     "[[''Name'', ''SLOT PREFERENCE : 1'', ''SLOT PREFERENCE : 2'', ''SLOT PREFERENCE : 3''],
      [''A'', ''SLOT 4 (5:30PM TO 7:00PM)'', ''SLOT 5 (7:00PM TO 8:30PM)'', ''''],
      [''B'', ''SLOT 5 (7:00PM TO 8:30PM)'', ''SLOT 4 (5:30PM TO 7:00PM)'', '''']]"]
    capacity_invariant [of "''SLOT 6 (5:30PM TO 7:00PM)''" 1
     "[[''Email'', ''SLOT PREFERENCE : 1''],
      [''a@iiitk.ac.in'', ''SLOT 6 (5:30PM TO 7:00PM)''],
      [''b@iiitk.ac.in'', ''SLOT 6 (5:30PM TO 7:00PM)'']]"]
  by (simp add: capacity_gym_def capacity_iiitk_def)

text \<open>
  C8 (a missing preference field is an absent preference, in both variants, and no hard
  error). The code at four inputs. The base variant, on a header without the third
  preference column, raises \<^verbatim>\<open>KeyError\<close> at the first applicant and writes no record.
  The extended variant, on a line that ends before its preference column, raises
  \<^verbatim>\<open>AttributeError\<close> and writes no record. Each variant handles the case the other
  one misses: the extended variant reads a column that the header lacks as the empty
  label, and the base variant reads a cell that the line lacks as no label.
\<close>

theorem missing_preference_field_raises:
  "snd (allocate_slots_gym
     [[''Name'', ''SLOT PREFERENCE : 1'', ''SLOT PREFERENCE : 2''],
      [''A'', ''SLOT 5 (7:00PM TO 8:30PM)'', '''']]) = Some (KeyError ''SLOT PREFERENCE : 3'') \<and>
   records (outfile (fst (allocate_slots_gym
     [[''Name'', ''SLOT PREFERENCE : 1'', ''SLOT PREFERENCE : 2''],
      [''A'', ''SLOT 5 (7:00PM TO 8:30PM)'', '''']]))) = [] \<and>
   snd (allocate_slots_iiitk
     [[''Email'', ''SLOT PREFERENCE : 1''],
      [''a@iiitk.ac.in'']]) = Some AttributeError \<and>
   records (outfile (fst (allocate_slots_iiitk
     [[''Email'', ''SLOT PREFERENCE : 1''],
      [''a@iiitk.ac.in'']]))) = [] \<and>
   outfile (fst (allocate_slots_iiitk
     [[''Email'', ''SLOT PREFERENCE : 1''],
      [''a@iiitk.ac.in'', '''']])) =
     [[''Email'', ''SLOT PREFERENCE : 1'', ''Allocated Slot''],
      [''a@iiitk.ac.in'', '''', ''No slot allocated'']] \<and>
   outfile (fst (allocate_slots_gym
     [[''Name'', ''SLOT PREFERENCE : 1'', ''SLOT PREFERENCE : 2'', ''SLOT PREFERENCE : 3''],
      [''A'']])) =
     [[''Name'', ''SLOT PREFERENCE : 1'', ''SLOT PREFERENCE : 2'', ''SLOT PREFERENCE : 3'',
       ''Allocated Slot''],
      [''A'', '''', '''', '''', ''No slot allocated'']]"
  by code_simp

text \<open>
  C9 (one \<^verbatim>\<open>Allocated Slot\<close> column after reprocessing). The base variant appends the
  column name to every header, so a header that has the column gets a second one, and
  both columns of each record then hold the new outcome. The extended variant appends
  the name only to a header without it.
\<close>

theorem base_header_duplicated:
  "count_list (fieldnames_gym header) ''Allocated Slot''
     = Suc (count_list header ''Allocated Slot'') \<and>
   outfile (fst (allocate_slots_gym
     [[''SLOT PREFERENCE : 1'', ''SLOT PREFERENCE : 2'', ''SLOT PREFERENCE : 3'', ''Allocated Slot''],
      [''x'', ''y'', ''z'', ''SLOT 1 (5:30AM TO 7:00 AM)'']])) =
     [[''SLOT PREFERENCE : 1'', ''SLOT PREFERENCE : 2'', ''SLOT PREFERENCE : 3'',
       ''Allocated Slot'', ''Allocated Slot''],
      [''x'', ''y'', ''z'', ''No slot allocated'', ''No slot allocated'']] \<and>
   count_list (fieldnames_iiitk header) ''Allocated Slot''
     = max 1 (count_list header ''Allocated Slot'')"
proof (intro conjI)
  show "count_list (fieldnames_gym header) ''Allocated Slot''
     = Suc (count_list header ''Allocated Slot'')"
    by (simp add: fieldnames_gym_def)
  show "outfile (fst (allocate_slots_gym
     [[''SLOT PREFERENCE : 1'', ''SLOT PREFERENCE : 2'', ''SLOT PREFERENCE : 3'', ''Allocated Slot''],
      [''x'', ''y'', ''z'', ''SLOT 1 (5:30AM TO 7:00 AM)'']])) =
     [[''SLOT PREFERENCE : 1'', ''SLOT PREFERENCE : 2'', ''SLOT PREFERENCE : 3'',
       ''Allocated Slot'', ''Allocated Slot''],
      [''x'', ''y'', ''z'', ''No slot allocated'', ''No slot allocated'']]"
    by code_simp
  show "count_list (fieldnames_iiitk header) ''Allocated Slot''
     = max 1 (count_list header ''Allocated Slot'')"
  proof (cases "''Allocated Slot'' \<in> set header")
    case True
    then have "0 < count_list header ''Allocated Slot''" by (metis count_list_0_iff gr0I)
    with True show ?thesis by (simp add: fieldnames_iiitk_def)
  next
    case False
    then have "count_list header ''Allocated Slot'' = 0" by (simp add: count_list_0_iff)
    with False show ?thesis by (simp add: fieldnames_iiitk_def)
  qed
qed

subsection \<open>First fit\<close>

lemma find_slot_gym_first_fit:
  "find_slot_gym prefs r cap = Inr (a, cap') \<Longrightarrow> a = first_fit cap (labels_gym prefs r)"
  by (induction prefs)
     (auto simp: first_fit_def labels_gym_def available_def split: option.splits if_splits)

lemma find_slot_iiitk_first_fit:
  "find_slot_iiitk prefs r cap = Inr (a, cap') \<Longrightarrow> a = first_fit cap (labels_iiitk prefs r)"
  by (induction prefs)
     (auto simp: first_fit_def labels_iiitk_def available_def get_strip_def
           split: option.splits if_splits sum.splits)

lemma find_slot_gym_total:
  "\<forall>k \<in> set prefs. map_of (items r) k \<noteq> None \<Longrightarrow> \<exists>res. find_slot_gym prefs r cap = Inr res"
  by (induction prefs) (auto split: option.splits)

lemma find_slot_iiitk_total:
  "\<forall>k \<in> set prefs. map_of (items r) k \<noteq> Some None \<Longrightarrow>
   \<exists>res. find_slot_iiitk prefs r cap = Inr res"
  by (induction prefs) (auto simp: get_strip_def split: option.splits sum.splits)

lemma find_slot_gym_rank:
  "find_slot_gym prefs r cap = Inr (Some s, cap') \<Longrightarrow>
   \<exists>n<length prefs. map_of (items r) (prefs ! n) = Some (Some s) \<and>
     (\<forall>r'::row. (\<forall>j\<le>n. map_of (items r') (prefs ! j) = map_of (items r) (prefs ! j)) \<longrightarrow>
           find_slot_gym prefs r' cap = Inr (Some s, cap'))"
proof (induction prefs)
  case Nil
  then show ?case by simp
next
  case (Cons k ks)
  show ?case
  proof (cases "\<exists>slot c. map_of (items r) k = Some (Some slot) \<and> cap slot = Some c \<and> 0 < c")
    case True
    then obtain slot c where h: "map_of (items r) k = Some (Some slot)" "cap slot = Some c" "0 < c"
      by blast
    with Cons.prems have eq: "s = slot" "cap' = cap(slot \<mapsto> c - 1)" by auto
    have "\<forall>r'::row. (\<forall>j\<le>0. map_of (items r') ((k # ks) ! j) = map_of (items r) ((k # ks) ! j)) \<longrightarrow>
           find_slot_gym (k # ks) r' cap = Inr (Some s, cap')"
      using h eq by simp
    moreover have "map_of (items r) ((k # ks) ! 0) = Some (Some s)" using h eq by simp
    ultimately show ?thesis by (intro exI [of _ 0]) simp
  next
    case False
    have skip: "\<And>r'::row. map_of (items r') k = map_of (items r) k \<Longrightarrow> map_of (items r) k \<noteq> None \<Longrightarrow>
        find_slot_gym (k # ks) r' cap = find_slot_gym ks r' cap"
      using False by (auto split: option.splits)
    have present: "map_of (items r) k \<noteq> None" using Cons.prems by (auto split: option.splits)
    have "find_slot_gym ks r cap = Inr (Some s, cap')"
      using Cons.prems skip [of r] present by simp
    from Cons.IH [OF this] obtain n where
      n: "n < length ks" "map_of (items r) (ks ! n) = Some (Some s)"
         "\<forall>r'::row. (\<forall>j\<le>n. map_of (items r') (ks ! j) = map_of (items r) (ks ! j)) \<longrightarrow>
               find_slot_gym ks r' cap = Inr (Some s, cap')"
      by blast
    have "\<forall>r'::row. (\<forall>j\<le>Suc n. map_of (items r') ((k # ks) ! j) = map_of (items r) ((k # ks) ! j)) \<longrightarrow>
           find_slot_gym (k # ks) r' cap = Inr (Some s, cap')"
    proof (intro allI impI)
      fix r' :: row
      assume a: "\<forall>j\<le>Suc n. map_of (items r') ((k # ks) ! j) = map_of (items r) ((k # ks) ! j)"
      from a have "map_of (items r') ((k # ks) ! 0) = map_of (items r) ((k # ks) ! 0)" by blast
      then have k0: "map_of (items r') k = map_of (items r) k" by simp
      have "\<forall>j\<le>n. map_of (items r') (ks ! j) = map_of (items r) (ks ! j)"
      proof (intro allI impI)
        fix j assume "j \<le> n"
        then have "Suc j \<le> Suc n" by simp
        with a have "map_of (items r') ((k # ks) ! Suc j) = map_of (items r) ((k # ks) ! Suc j)"
          by blast
        then show "map_of (items r') (ks ! j) = map_of (items r) (ks ! j)" by simp
      qed
      with n(3) have "find_slot_gym ks r' cap = Inr (Some s, cap')" by blast
      with skip [OF k0 present] show "find_slot_gym (k # ks) r' cap = Inr (Some s, cap')" by simp
    qed
    moreover have "Suc n < length (k # ks)" using n(1) by simp
    moreover have "map_of (items r) ((k # ks) ! Suc n) = Some (Some s)" using n(2) by simp
    ultimately show ?thesis by blast
  qed
qed


lemma find_slot_iiitk_rank:
  "find_slot_iiitk prefs r cap = Inr (Some s, cap') \<Longrightarrow>
   \<exists>n<length prefs. get_strip r (prefs ! n) = Inr s \<and>
     (\<forall>r'. (\<forall>j\<le>n. get_strip r' (prefs ! j) = get_strip r (prefs ! j)) \<longrightarrow>
           find_slot_iiitk prefs r' cap = Inr (Some s, cap'))"
proof (induction prefs)
  case Nil
  then show ?case by simp
next
  case (Cons k ks)
  show ?case
  proof (cases "\<exists>slot c. get_strip r k = Inr slot \<and> cap slot = Some c \<and> 0 < c")
    case True
    then obtain slot c where h: "get_strip r k = Inr slot" "cap slot = Some c" "0 < c"
      by blast
    with Cons.prems have eq: "s = slot" "cap' = cap(slot \<mapsto> c - 1)" by auto
    have "\<forall>r'. (\<forall>j\<le>0. get_strip r' ((k # ks) ! j) = get_strip r ((k # ks) ! j)) \<longrightarrow>
           find_slot_iiitk (k # ks) r' cap = Inr (Some s, cap')"
      using h eq by simp
    moreover have "get_strip r ((k # ks) ! 0) = Inr s" using h eq by simp
    ultimately show ?thesis by (intro exI [of _ 0]) simp
  next
    case False
    have present: "\<exists>slot. get_strip r k = Inr slot"
      using Cons.prems by (cases "get_strip r k") simp_all
    have skip: "\<And>r'. get_strip r' k = get_strip r k \<Longrightarrow>
        find_slot_iiitk (k # ks) r' cap = find_slot_iiitk ks r' cap"
      using False present by (auto split: option.splits)
    have "find_slot_iiitk ks r cap = Inr (Some s, cap')"
      using Cons.prems skip [of r] by simp
    from Cons.IH [OF this] obtain n where
      n: "n < length ks" "get_strip r (ks ! n) = Inr s"
         "\<forall>r'. (\<forall>j\<le>n. get_strip r' (ks ! j) = get_strip r (ks ! j)) \<longrightarrow>
               find_slot_iiitk ks r' cap = Inr (Some s, cap')"
      by blast
    have "\<forall>r'. (\<forall>j\<le>Suc n. get_strip r' ((k # ks) ! j) = get_strip r ((k # ks) ! j)) \<longrightarrow>
           find_slot_iiitk (k # ks) r' cap = Inr (Some s, cap')"
    proof (intro allI impI)
      fix r'
      assume a: "\<forall>j\<le>Suc n. get_strip r' ((k # ks) ! j) = get_strip r ((k # ks) ! j)"
      from a have "get_strip r' ((k # ks) ! 0) = get_strip r ((k # ks) ! 0)" by blast
      then have k0: "get_strip r' k = get_strip r k" by simp
      have "\<forall>j\<le>n. get_strip r' (ks ! j) = get_strip r (ks ! j)"
      proof (intro allI impI)
        fix j assume "j \<le> n"
        then have "Suc j \<le> Suc n" by simp
        with a have "get_strip r' ((k # ks) ! Suc j) = get_strip r ((k # ks) ! Suc j)"
          by blast
        then show "get_strip r' (ks ! j) = get_strip r (ks ! j)" by simp
      qed
      with n(3) have "find_slot_iiitk ks r' cap = Inr (Some s, cap')" by blast
      with skip [OF k0] show "find_slot_iiitk (k # ks) r' cap = Inr (Some s, cap')" by simp
    qed
    moreover have "Suc n < length (k # ks)" using n(1) by simp
    moreover have "get_strip r ((k # ks) ! Suc n) = Inr s" using n(2) by simp
    ultimately show ?thesis by blast
  qed
qed

lemma outcome_of_slot: "s \<noteq> [] \<Longrightarrow> outcome_of (Some s) = s"
  by (simp add: outcome_of_def)

lemma pass_found:
  assumes fn: "''Allocated Slot'' \<in> set fn"
    and e: "emit fn r (outcome_of a) st cap' = (st', None)"
    and a: "a = first_fit (capacity st) labels"
    and sh: "(a = None \<and> cap' = capacity st) \<or>
         (\<exists>s c. a = Some s \<and> capacity st s = Some c \<and> 0 < c \<and> cap' = (capacity st)(s \<mapsto> c - 1))"
    and ne: "capacity st [] = None"
  shows "case first_fit (capacity st) labels of
           None \<Rightarrow> capacity st' = capacity st \<and>
                   allocated_of fn (last (outfile st')) = ''No slot allocated''
         | Some s \<Rightarrow> \<exists>c. capacity st s = Some c \<and> 0 < c \<and>
                   capacity st' = (capacity st)(s \<mapsto> c - 1) \<and>
                   allocated_of fn (last (outfile st')) = s"
proof -
  from emit_cases [OF fn, of r "outcome_of a" st cap'] e obtain line where
    l: "st' = \<lparr>capacity = cap', outfile = outfile st @ [line]\<rparr>"
       "allocated_of fn line = outcome_of a"
    by auto
  from sh show ?thesis
  proof (elim disjE conjE exE)
    assume "a = None" "cap' = capacity st"
    with a l show ?thesis by (simp add: outcome_of_def)
  next
    fix s c
    assume h: "a = Some s" "capacity st s = Some c" "0 < c" "cap' = (capacity st)(s \<mapsto> c - 1)"
    from h(2) ne have "s \<noteq> []" by auto
    then have "outcome_of a = s" using h(1) by (simp add: outcome_of_slot)
    with a [symmetric] l h show ?thesis by simp
  qed
qed

lemma pass_gym:
  assumes fn: "''Allocated Slot'' \<in> set fn"
    and p: "process_row_gym fn r st = (st', None)"
    and ne: "capacity st [] = None"
  shows "case first_fit (capacity st) (labels_gym pref_keys_gym r) of
           None \<Rightarrow> capacity st' = capacity st \<and>
                   allocated_of fn (last (outfile st')) = ''No slot allocated''
         | Some s \<Rightarrow> \<exists>c. capacity st s = Some c \<and> 0 < c \<and>
                   capacity st' = (capacity st)(s \<mapsto> c - 1) \<and>
                   allocated_of fn (last (outfile st')) = s"
proof (cases "find_slot_gym pref_keys_gym r (capacity st)")
  case (Inl e)
  with p show ?thesis by (simp add: process_row_gym_emit)
next
  case (Inr q)
  obtain a cap' where q: "q = (a, cap')" by (cases q)
  from p have e: "emit fn r (outcome_of a) st cap' = (st', None)"
    by (simp add: process_row_gym_emit Inr q)
  show ?thesis
    using pass_found [OF fn e find_slot_gym_first_fit [OF Inr [unfolded q]]
        find_slot_gym_cases [OF Inr [unfolded q]] ne] .
qed

lemma pass_iiitk:
  assumes fn: "''Allocated Slot'' \<in> set fn"
    and p: "process_row_iiitk fn r st = (st', None)"
    and em: "get_strip r ''Email'' = Inr email" "valid_email (lower email)"
    and ne: "capacity st [] = None"
  shows "case first_fit (capacity st) (labels_iiitk preference_columns r) of
           None \<Rightarrow> capacity st' = capacity st \<and>
                   allocated_of fn (last (outfile st')) = ''No slot allocated''
         | Some s \<Rightarrow> \<exists>c. capacity st s = Some c \<and> 0 < c \<and>
                   capacity st' = (capacity st)(s \<mapsto> c - 1) \<and>
                   allocated_of fn (last (outfile st')) = s"
proof (cases "find_slot_iiitk preference_columns r (capacity st)")
  case (Inl e)
  with p em show ?thesis by (simp add: process_row_iiitk_emit)
next
  case (Inr q)
  obtain a cap' where q: "q = (a, cap')" by (cases q)
  from p em have e: "emit fn r (outcome_of a) st cap' = (st', None)"
    by (simp add: process_row_iiitk_emit Inr q)
  show ?thesis
    using pass_found [OF fn e find_slot_iiitk_first_fit [OF Inr [unfolded q]]
        find_slot_iiitk_cases [OF Inr [unfolded q]] ne] .
qed

text \<open>
  First fit, for a pass that completes. Whenever a pass of the loop body completes for
  an applicant who reaches preference matching (in the extended variant: whose email
  passes the domain check), the outcome written for the applicant is the first label, in
  rank order, that is a key of the capacity dictionary with a capacity above zero at
  that moment; exactly that entry goes down by one and nothing else changes; when no
  label is available, the outcome is the text for no slot and the dictionary is
  unchanged. The labels are the cells as the variant reads them. The state is any state
  whose dictionary has no empty label as a key, as in every state of a run of either
  script. No later preference is examined: the result of the preference loop is the same
  for every row that agrees with the applicant's up to the rank that decided, even a row
  that would raise an exception if a later preference were read.
\<close>

theorem first_fit_assignment:
  "(''Allocated Slot'' \<in> set fn \<and> capacity st [] = None \<and>
    process_row_gym fn r st = (st', None) \<longrightarrow>
      (case first_fit (capacity st) (labels_gym pref_keys_gym r) of
         None \<Rightarrow> capacity st' = capacity st \<and>
                 allocated_of fn (last (outfile st')) = ''No slot allocated''
       | Some s \<Rightarrow> \<exists>c. capacity st s = Some c \<and> 0 < c \<and>
                 capacity st' = (capacity st)(s \<mapsto> c - 1) \<and>
                 allocated_of fn (last (outfile st')) = s)) \<and>
   (''Allocated Slot'' \<in> set fn \<and> capacity st [] = None \<and>
    get_strip r ''Email'' = Inr email \<and> valid_email (lower email) \<and>
    process_row_iiitk fn r st = (st', None) \<longrightarrow>
      (case first_fit (capacity st) (labels_iiitk preference_columns r) of
         None \<Rightarrow> capacity st' = capacity st \<and>
                 allocated_of fn (last (outfile st')) = ''No slot allocated''
       | Some s \<Rightarrow> \<exists>c. capacity st s = Some c \<and> 0 < c \<and>
                 capacity st' = (capacity st)(s \<mapsto> c - 1) \<and>
                 allocated_of fn (last (outfile st')) = s)) \<and>
   (find_slot_gym prefs r cap = Inr (Some s, cap') \<longrightarrow>
      (\<exists>n<length prefs. map_of (items r) (prefs ! n) = Some (Some s) \<and>
         (\<forall>r'::row. (\<forall>j\<le>n. map_of (items r') (prefs ! j) = map_of (items r) (prefs ! j)) \<longrightarrow>
               find_slot_gym prefs r' cap = Inr (Some s, cap')))) \<and>
   (find_slot_iiitk prefs r cap = Inr (Some s, cap') \<longrightarrow>
      (\<exists>n<length prefs. get_strip r (prefs ! n) = Inr s \<and>
         (\<forall>r'. (\<forall>j\<le>n. get_strip r' (prefs ! j) = get_strip r (prefs ! j)) \<longrightarrow>
               find_slot_iiitk prefs r' cap = Inr (Some s, cap'))))"
proof (intro conjI impI)
  assume "''Allocated Slot'' \<in> set fn \<and> capacity st [] = None \<and>
    process_row_gym fn r st = (st', None)"
  then show "case first_fit (capacity st) (labels_gym pref_keys_gym r) of
         None \<Rightarrow> capacity st' = capacity st \<and>
                 allocated_of fn (last (outfile st')) = ''No slot allocated''
       | Some s \<Rightarrow> \<exists>c. capacity st s = Some c \<and> 0 < c \<and>
                 capacity st' = (capacity st)(s \<mapsto> c - 1) \<and>
                 allocated_of fn (last (outfile st')) = s"
    using pass_gym [of fn r st st'] by blast
next
  assume "''Allocated Slot'' \<in> set fn \<and> capacity st [] = None \<and>
    get_strip r ''Email'' = Inr email \<and> valid_email (lower email) \<and>
    process_row_iiitk fn r st = (st', None)"
  then show "case first_fit (capacity st) (labels_iiitk preference_columns r) of
         None \<Rightarrow> capacity st' = capacity st \<and>
                 allocated_of fn (last (outfile st')) = ''No slot allocated''
       | Some s \<Rightarrow> \<exists>c. capacity st s = Some c \<and> 0 < c \<and>
                 capacity st' = (capacity st)(s \<mapsto> c - 1) \<and>
                 allocated_of fn (last (outfile st')) = s"
    using pass_iiitk [of fn r st st' email] by blast
next
  assume "find_slot_gym prefs r cap = Inr (Some s, cap')"
  then show "\<exists>n<length prefs. map_of (items r) (prefs ! n) = Some (Some s) \<and>
         (\<forall>r'::row. (\<forall>j\<le>n. map_of (items r') (prefs ! j) = map_of (items r) (prefs ! j)) \<longrightarrow>
               find_slot_gym prefs r' cap = Inr (Some s, cap'))"
    by (rule find_slot_gym_rank)
next
  assume "find_slot_iiitk prefs r cap = Inr (Some s, cap')"
  then show "\<exists>n<length prefs. get_strip r (prefs ! n) = Inr s \<and>
         (\<forall>r'. (\<forall>j\<le>n. get_strip r' (prefs ! j) = get_strip r (prefs ! j)) \<longrightarrow>
               find_slot_iiitk prefs r' cap = Inr (Some s, cap'))"
    by (rule find_slot_iiitk_rank)
qed

theorem first_fit_assignment_witness:
  "snd (process_row_gym ex_fn ex_row_gym start_gym) = None \<and>
   allocated_of ex_fn (last (outfile (fst (process_row_gym ex_fn ex_row_gym start_gym))))
     = ''SLOT 4 (5:30PM TO 7:00PM)'' \<and>
   capacity (fst (process_row_gym ex_fn ex_row_gym start_gym))
     = capacity_gym(''SLOT 4 (5:30PM TO 7:00PM)'' \<mapsto> 4) \<and>
   snd (process_row_iiitk ex_fn ex_row_iiitk start_iiitk) = None \<and>
   allocated_of ex_fn (last (outfile (fst (process_row_iiitk ex_fn ex_row_iiitk start_iiitk))))
     = ''SLOT 7 (7:00PM TO 8:30PM)'' \<and>
   capacity (fst (process_row_iiitk ex_fn ex_row_iiitk start_iiitk))
     = capacity_iiitk(''SLOT 7 (7:00PM TO 8:30PM)'' \<mapsto> 0) \<and>
   find_slot_gym pref_keys_gym ex_row_gym_short capacity_gym
     = Inr (Some ''SLOT 4 (5:30PM TO 7:00PM)'', capacity_gym(''SLOT 4 (5:30PM TO 7:00PM)'' \<mapsto> 4)) \<and>
   find_slot_iiitk preference_columns ex_row_iiitk_short capacity_iiitk
     = Inr (Some ''SLOT 7 (7:00PM TO 8:30PM)'', capacity_iiitk(''SLOT 7 (7:00PM TO 8:30PM)'' \<mapsto> 0))"
proof -
  let ?g = "process_row_gym ex_fn ex_row_gym start_gym"
  let ?i = "process_row_iiitk ex_fn ex_row_iiitk start_iiitk"
  have fn: "''Allocated Slot'' \<in> set ex_fn" by (simp add: ex_fn_def)
  have cg: "capacity_gym [] = None" "capacity_gym ''SLOT 4 (5:30PM TO 7:00PM)'' = Some 5"
    "capacity_gym ''SLOT 5 (7:00PM TO 8:30PM)'' = Some 0"
    by (simp_all add: capacity_gym_def)
  have ci: "capacity_iiitk [] = None" "capacity_iiitk ''SLOT 7 (7:00PM TO 8:30PM)'' = Some 1"
    "capacity_iiitk ''typo'' = None"
    by (simp_all add: capacity_iiitk_def)
  \<comment> \<open>the base variant's pass\<close>
  have eg: "snd ?g = None" by code_simp
  then have pg: "?g = (fst ?g, None)" by (metis prod.collapse)
  have fg: "first_fit (capacity start_gym) (labels_gym pref_keys_gym ex_row_gym)
      = Some ''SLOT 4 (5:30PM TO 7:00PM)''" by code_simp
  have hg: "''Allocated Slot'' \<in> set ex_fn \<and> capacity start_gym [] = None \<and> ?g = (fst ?g, None)"
    using fn pg cg(1) by (simp add: start_gym_def)
  have g: "allocated_of ex_fn (last (outfile (fst ?g))) = ''SLOT 4 (5:30PM TO 7:00PM)'' \<and>
      capacity (fst ?g) = capacity_gym(''SLOT 4 (5:30PM TO 7:00PM)'' \<mapsto> 4)"
    using first_fit_assignment [THEN conjunct1, rule_format, OF hg] fg cg(2)
    by (simp add: start_gym_def)
  \<comment> \<open>the extended variant's pass\<close>
  have ei: "snd ?i = None" by code_simp
  then have pi: "?i = (fst ?i, None)" by (metis prod.collapse)
  have em: "get_strip ex_row_iiitk ''Email'' = Inr ''A@IIITK.AC.IN''" by code_simp
  have va: "valid_email (lower ''A@IIITK.AC.IN'')" by code_simp
  have fi: "first_fit (capacity start_iiitk) (labels_iiitk preference_columns ex_row_iiitk)
      = Some ''SLOT 7 (7:00PM TO 8:30PM)''" by code_simp
  have hi: "''Allocated Slot'' \<in> set ex_fn \<and> capacity start_iiitk [] = None \<and>
      get_strip ex_row_iiitk ''Email'' = Inr ''A@IIITK.AC.IN'' \<and>
      valid_email (lower ''A@IIITK.AC.IN'') \<and> ?i = (fst ?i, None)"
    using fn pi ci(1) em va by (simp add: start_iiitk_def)
  have i: "allocated_of ex_fn (last (outfile (fst ?i))) = ''SLOT 7 (7:00PM TO 8:30PM)'' \<and>
      capacity (fst ?i) = capacity_iiitk(''SLOT 7 (7:00PM TO 8:30PM)'' \<mapsto> 0)"
    using first_fit_assignment [THEN conjunct2, THEN conjunct1, rule_format, OF hi] fi ci(2)
    by (simp add: start_iiitk_def)
  \<comment> \<open>the rank that decides, base variant: the third preference is not read\<close>
  have rg: "find_slot_gym pref_keys_gym ex_row_gym capacity_gym
      = Inr (Some ''SLOT 4 (5:30PM TO 7:00PM)'', capacity_gym(''SLOT 4 (5:30PM TO 7:00PM)'' \<mapsto> 4))"
    by (simp add: pref_keys_gym_def ex_row_gym_def cg)
  from first_fit_assignment [THEN conjunct2, THEN conjunct2, THEN conjunct1, rule_format, OF rg]
  obtain n where n: "n < length pref_keys_gym"
      "map_of (items ex_row_gym) (pref_keys_gym ! n) = Some (Some ''SLOT 4 (5:30PM TO 7:00PM)'')"
      "\<forall>r'::row. (\<forall>j\<le>n. map_of (items r') (pref_keys_gym ! j)
                          = map_of (items ex_row_gym) (pref_keys_gym ! j)) \<longrightarrow>
          find_slot_gym pref_keys_gym r' capacity_gym
            = Inr (Some ''SLOT 4 (5:30PM TO 7:00PM)'', capacity_gym(''SLOT 4 (5:30PM TO 7:00PM)'' \<mapsto> 4))"
    by blast
  from n(1) have "n = 0 \<or> n = 1 \<or> n = 2" by (auto simp: pref_keys_gym_def)
  with n(2) have n1: "n = 1" by (auto simp: pref_keys_gym_def ex_row_gym_def)
  have "\<forall>j\<le>n. map_of (items ex_row_gym_short) (pref_keys_gym ! j)
                 = map_of (items ex_row_gym) (pref_keys_gym ! j)"
    unfolding n1 by (auto simp: le_Suc_eq pref_keys_gym_def ex_row_gym_def ex_row_gym_short_def)
  with n(3) have sg: "find_slot_gym pref_keys_gym ex_row_gym_short capacity_gym
      = Inr (Some ''SLOT 4 (5:30PM TO 7:00PM)'', capacity_gym(''SLOT 4 (5:30PM TO 7:00PM)'' \<mapsto> 4))"
    by blast
  \<comment> \<open>the rank that decides, extended variant\<close>
  have st: "get_strip ex_row_iiitk ''SLOT PREFERENCE : 1'' = Inr ''typo''"
      "get_strip ex_row_iiitk ''SLOT PREFERENCE : 2'' = Inr ''SLOT 7 (7:00PM TO 8:30PM)''"
      "get_strip ex_row_iiitk ''SLOT PREFERENCE : 3'' = Inr ''SLOT 1 (4:30AM TO 5:30 AM)''"
      "get_strip ex_row_iiitk_short ''SLOT PREFERENCE : 1'' = Inr ''typo''"
      "get_strip ex_row_iiitk_short ''SLOT PREFERENCE : 2'' = Inr ''SLOT 7 (7:00PM TO 8:30PM)''"
    by code_simp+
  have ri: "find_slot_iiitk preference_columns ex_row_iiitk capacity_iiitk
      = Inr (Some ''SLOT 7 (7:00PM TO 8:30PM)'', capacity_iiitk(''SLOT 7 (7:00PM TO 8:30PM)'' \<mapsto> 0))"
    by (simp add: preference_columns_eq st ci)
  from first_fit_assignment [THEN conjunct2, THEN conjunct2, THEN conjunct2, rule_format, OF ri]
  obtain m where m: "m < length preference_columns"
      "get_strip ex_row_iiitk (preference_columns ! m) = Inr ''SLOT 7 (7:00PM TO 8:30PM)''"
      "\<forall>r'. (\<forall>j\<le>m. get_strip r' (preference_columns ! j)
                          = get_strip ex_row_iiitk (preference_columns ! j)) \<longrightarrow>
          find_slot_iiitk preference_columns r' capacity_iiitk
            = Inr (Some ''SLOT 7 (7:00PM TO 8:30PM)'', capacity_iiitk(''SLOT 7 (7:00PM TO 8:30PM)'' \<mapsto> 0))"
    by blast
  have all9: "\<And>P. m < 9 \<Longrightarrow> P 0 \<Longrightarrow> P 1 \<Longrightarrow> P 2 \<Longrightarrow> P 3 \<Longrightarrow> P 4 \<Longrightarrow> P 5 \<Longrightarrow> P 6
      \<Longrightarrow> P 7 \<Longrightarrow> P 8 \<Longrightarrow> P m"
    by (auto simp: less_Suc_eq numeral_eq_Suc)
  have len: "m < 9" using m(1) by (simp add: preference_columns_eq)
  have "get_strip ex_row_iiitk (preference_columns ! m) = Inr ''SLOT 7 (7:00PM TO 8:30PM)''
      \<longrightarrow> m = 1"
    by (rule all9 [OF len]; code_simp)
  with m(2) have m1: "m = 1" by blast
  have "\<forall>j\<le>m. get_strip ex_row_iiitk_short (preference_columns ! j)
                 = get_strip ex_row_iiitk (preference_columns ! j)"
    unfolding m1 by (auto simp: le_Suc_eq preference_columns_eq st)
  with m(3) have si: "find_slot_iiitk preference_columns ex_row_iiitk_short capacity_iiitk
      = Inr (Some ''SLOT 7 (7:00PM TO 8:30PM)'', capacity_iiitk(''SLOT 7 (7:00PM TO 8:30PM)'' \<mapsto> 0))"
    by blast
  from eg g ei i sg si show ?thesis by simp
qed

text \<open>
  C2 (first fit). The code at two inputs on which an applicant reaches preference
  matching and has an available preference, yet gets no outcome. Base variant: the
  header has the first and the third preference column, the first preference is the slot
  of capacity zero and the third is a slot with free capacity; reading the second
  preference raises \<^verbatim>\<open>KeyError\<close> and nothing is written. Extended variant: the header has
  the second preference column before the first and the line ends after the second
  preference, which is a slot with free capacity; reading the first preference raises
  \<^verbatim>\<open>AttributeError\<close> and nothing is written. In both, the first available label in
  rank order exists, a missing field counting as an absent preference.
\<close>

theorem first_fit_missed:
  "first_fit capacity_gym
     (labels_gym pref_keys_gym
        (DictReader [''SLOT PREFERENCE : 1'', ''SLOT PREFERENCE : 3'']
           [[''SLOT 5 (7:00PM TO 8:30PM)'', ''SLOT 4 (5:30PM TO 7:00PM)'']] ! 0))
     = Some ''SLOT 4 (5:30PM TO 7:00PM)'' \<and>
   snd (allocate_slots_gym
     [[''SLOT PREFERENCE : 1'', ''SLOT PREFERENCE : 3''],
      [''SLOT 5 (7:00PM TO 8:30PM)'', ''SLOT 4 (5:30PM TO 7:00PM)'']])
     = Some (KeyError ''SLOT PREFERENCE : 2'') \<and>
   outcomes (outfile (fst (allocate_slots_gym
     [[''SLOT PREFERENCE : 1'', ''SLOT PREFERENCE : 3''],
      [''SLOT 5 (7:00PM TO 8:30PM)'', ''SLOT 4 (5:30PM TO 7:00PM)'']]))) = [] \<and>
   get_strip (DictReader [''Email'', ''SLOT PREFERENCE : 2'', ''SLOT PREFERENCE : 1'']
           [[''a@iiitk.ac.in'', ''SLOT 1 (4:30AM TO 5:30 AM)'']] ! 0) ''Email''
     = Inr ''a@iiitk.ac.in'' \<and>
   valid_email (lower ''a@iiitk.ac.in'') \<and>
   first_fit capacity_iiitk
     (labels_iiitk preference_columns
        (DictReader [''Email'', ''SLOT PREFERENCE : 2'', ''SLOT PREFERENCE : 1'']
           [[''a@iiitk.ac.in'', ''SLOT 1 (4:30AM TO 5:30 AM)'']] ! 0))
     = Some ''SLOT 1 (4:30AM TO 5:30 AM)'' \<and>
   snd (allocate_slots_iiitk
     [[''Email'', ''SLOT PREFERENCE : 2'', ''SLOT PREFERENCE : 1''],
      [''a@iiitk.ac.in'', ''SLOT 1 (4:30AM TO 5:30 AM)'']])
     = Some AttributeError \<and>
   outcomes (outfile (fst (allocate_slots_iiitk
     [[''Email'', ''SLOT PREFERENCE : 2'', ''SLOT PREFERENCE : 1''],
      [''a@iiitk.ac.in'', ''SLOT 1 (4:30AM TO 5:30 AM)'']]))) = []"
  by code_simp

subsection \<open>The capacity dictionary through a run\<close>

lemma loop_cap_back:
  assumes step: "\<And>r st. step_spec fn st (body r st)"
  shows "for_rows body rows st = (st', err) \<Longrightarrow> capacity st' S = Some c' \<Longrightarrow>
         \<exists>c. capacity st S = Some c \<and> c' \<le> c"
proof (induction rows arbitrary: st)
  case Nil
  then show ?case by simp
next
  case (Cons r rs)
  obtain st1 e1 where b: "body r st = (st1, e1)" by (cases "body r st")
  have sp: "step_spec fn st (st1, e1)" using step [of st r] b by simp
  show ?case
  proof (cases e1)
    case (Some e)
    with Cons.prems(1) b have "st' = st1" by simp
    with step_cap_back [OF sp] Cons.prems(2) show ?thesis by simp
  next
    case None
    with Cons.prems(1) b have "for_rows body rs st1 = (st', err)" by simp
    from Cons.IH [OF this Cons.prems(2)] obtain c1 where
      c1: "capacity st1 S = Some c1" "c' \<le> c1" by blast
    from step_cap_back [OF sp c1(1)] c1(2) show ?thesis by auto
  qed
qed

lemma loop_dom:
  assumes step: "\<And>r st. step_spec fn st (body r st)"
    and run: "for_rows body rows st = (st', err)"
  shows "dom (capacity st') = dom (capacity st)"
proof (intro set_eqI iffI)
  fix S assume "S \<in> dom (capacity st')"
  then obtain c' where "capacity st' S = Some c'" by auto
  from loop_cap_back [of fn body, OF step run this] show "S \<in> dom (capacity st)" by auto
next
  fix S assume "S \<in> dom (capacity st)"
  then obtain c where c: "capacity st S = Some c" by auto
  from loop_out [of fn body, OF step run] obtain new where
    new: "outfile st' = outfile st @ new" by blast
  from loop_cap [of fn body, OF step run new c] show "S \<in> dom (capacity st')" by auto
qed

lemma loop_bounds:
  assumes step: "\<And>r st. step_spec fn st (body r st)"
    and run: "for_rows body rows st = (st', err)"
    and c: "capacity st S = Some c" "0 \<le> c"
  shows "\<exists>c'. capacity st' S = Some c' \<and> 0 \<le> c' \<and> c' \<le> c"
proof -
  from loop_out [of fn body, OF step run] obtain new where
    new: "outfile st' = outfile st @ new" by blast
  from loop_cap [of fn body, OF step run new c(1)] c(2) show ?thesis by auto
qed

lemma loop_zero:
  assumes step: "\<And>r st. step_spec fn st (body r st)"
    and run: "for_rows body rows st = (st', err)"
    and z: "capacity st S = Some 0" "S \<notin> sentinels"
    and l: "line \<in> set (drop (length (outfile st)) (outfile st'))"
  shows "allocated_of fn line \<noteq> S"
proof -
  from loop_out [of fn body, OF step run] obtain new where
    new: "outfile st' = outfile st @ new" by blast
  with l have "line \<in> set new" by simp
  from loop_outcomes [of fn body, OF step run new this] z show ?thesis by auto
qed

lemma emit_capacity: "capacity (fst (emit fn r v st cap')) = cap'"
  by (simp add: emit_def split: sum.splits)

lemma mutation_found:
  assumes a: "a = first_fit (capacity st) labels"
    and sh: "(a = None \<and> cap' = capacity st) \<or>
         (\<exists>s c. a = Some s \<and> capacity st s = Some c \<and> 0 < c \<and> cap' = (capacity st)(s \<mapsto> c - 1))"
  shows "cap' = capacity st \<or>
         (\<exists>S c. first_fit (capacity st) labels = Some S \<and> capacity st S = Some c \<and> 0 < c \<and>
                cap' = (capacity st)(S \<mapsto> c - 1))"
  using sh a by auto

lemma mutation_gym:
  "capacity (fst (process_row_gym fn r st)) = capacity st \<or>
   (\<exists>S c. first_fit (capacity st) (labels_gym pref_keys_gym r) = Some S \<and>
          capacity st S = Some c \<and> 0 < c \<and>
          capacity (fst (process_row_gym fn r st)) = (capacity st)(S \<mapsto> c - 1))"
proof (cases "find_slot_gym pref_keys_gym r (capacity st)")
  case (Inl e)
  then show ?thesis by (simp add: process_row_gym_emit)
next
  case (Inr q)
  obtain a cap' where q: "q = (a, cap')" by (cases q)
  have "capacity (fst (process_row_gym fn r st)) = cap'"
    by (simp add: process_row_gym_emit Inr q emit_capacity)
  with mutation_found [OF find_slot_gym_first_fit [OF Inr [unfolded q]]
      find_slot_gym_cases [OF Inr [unfolded q]]]
  show ?thesis by simp
qed

lemma mutation_iiitk:
  "capacity (fst (process_row_iiitk fn r st)) = capacity st \<or>
   (\<exists>S c. first_fit (capacity st) (labels_iiitk preference_columns r) = Some S \<and>
          capacity st S = Some c \<and> 0 < c \<and>
          capacity (fst (process_row_iiitk fn r st)) = (capacity st)(S \<mapsto> c - 1))"
proof (cases "get_strip r ''Email''")
  case (Inl e)
  then show ?thesis by (simp add: process_row_iiitk_emit)
next
  case em: (Inr email)
  show ?thesis
  proof (cases "valid_email (lower email)")
    case False
    then show ?thesis by (simp add: process_row_iiitk_emit em emit_capacity)
  next
    case v: True
    show ?thesis
    proof (cases "find_slot_iiitk preference_columns r (capacity st)")
      case (Inl e)
      then show ?thesis using v by (simp add: process_row_iiitk_emit em)
    next
      case (Inr q)
      obtain a cap' where q: "q = (a, cap')" by (cases q)
      have "capacity (fst (process_row_iiitk fn r st)) = cap'"
        using v by (simp add: process_row_iiitk_emit em Inr q emit_capacity)
      with mutation_found [OF find_slot_iiitk_first_fit [OF Inr [unfolded q]]
          find_slot_iiitk_cases [OF Inr [unfolded q]]]
      show ?thesis by simp
    qed
  qed
qed

lemma run_gym_bounds:
  assumes c: "capacity_gym S = Some c"
  shows "\<exists>c'. capacity (fst (allocate_slots_gym infile)) S = Some c' \<and> 0 \<le> c' \<and> c' \<le> c"
proof (cases infile)
  case Nil
  then show ?thesis using c capacity_gym_keys [OF c] by (simp add: allocate_slots_gym_def)
next
  case (Cons header lines)
  let ?fn = "fieldnames_gym header"
  let ?st = "\<lparr>capacity = capacity_gym, outfile = [?fn]\<rparr>"
  obtain st' err where run: "for_rows (process_row_gym ?fn) (DictReader header lines) ?st = (st', err)"
    by (meson surj_pair)
  have "\<exists>c'. capacity st' S = Some c' \<and> 0 \<le> c' \<and> c' \<le> c"
    using loop_bounds [of ?fn "process_row_gym ?fn", OF step_spec_gym [OF fieldnames_gym_has] run]
      c capacity_gym_keys [OF c] by simp
  then show ?thesis using run Cons by (simp add: allocate_slots_gym_def)
qed

lemma run_iiitk_bounds:
  assumes c: "capacity_iiitk S = Some c"
  shows "\<exists>c'. capacity (fst (allocate_slots_iiitk infile)) S = Some c' \<and> 0 \<le> c' \<and> c' \<le> c"
proof (cases infile)
  case Nil
  then show ?thesis using c capacity_iiitk_keys [OF c] by (simp add: allocate_slots_iiitk_def)
next
  case (Cons header lines)
  let ?fn = "fieldnames_iiitk header"
  let ?st = "\<lparr>capacity = capacity_iiitk, outfile = [?fn]\<rparr>"
  obtain st' err where run: "for_rows (process_row_iiitk ?fn) (DictReader header lines) ?st = (st', err)"
    by (meson surj_pair)
  have "\<exists>c'. capacity st' S = Some c' \<and> 0 \<le> c' \<and> c' \<le> c"
    using loop_bounds [of ?fn "process_row_iiitk ?fn", OF step_spec_iiitk [OF fieldnames_iiitk_has] run]
      c capacity_iiitk_keys [OF c] by simp
  then show ?thesis using run Cons by (simp add: allocate_slots_iiitk_def)
qed

text \<open>
  C7 (the capacity dictionary only goes down, one at a time, never below zero; a slot of
  capacity zero is never assigned). One pass of either loop body, from any state, leaves
  the capacity dictionary as it is or takes exactly one entry, above zero, down by one,
  and that entry is the first available label of the applicant of that pass (a
  successful allocation). At the end of every run of either script, and so at every
  moment of a run (the state after \<open>i\<close> applicants is the end state of the run on the
  file cut after them), each configured slot holds a capacity between zero and its
  initial capacity. And in a loop started from any state, with any header that has the
  \<^verbatim>\<open>Allocated Slot\<close> column, a slot whose capacity is zero at the start (a label other
  than the two texts that are not slots) is the outcome of no record written by the loop.
\<close>

theorem capacity_only_decrements:
  "(capacity (fst (process_row_gym fn r st)) = capacity st \<or>
     (\<exists>S c. first_fit (capacity st) (labels_gym pref_keys_gym r) = Some S \<and>
            capacity st S = Some c \<and> 0 < c \<and>
            capacity (fst (process_row_gym fn r st)) = (capacity st)(S \<mapsto> c - 1))) \<and>
   (capacity (fst (process_row_iiitk fn r st)) = capacity st \<or>
     (\<exists>S c. first_fit (capacity st) (labels_iiitk preference_columns r) = Some S \<and>
            capacity st S = Some c \<and> 0 < c \<and>
            capacity (fst (process_row_iiitk fn r st)) = (capacity st)(S \<mapsto> c - 1))) \<and>
   (capacity_gym S = Some c \<longrightarrow>
      (\<exists>c'. capacity (fst (allocate_slots_gym infile)) S = Some c' \<and> 0 \<le> c' \<and> c' \<le> c)) \<and>
   (capacity_iiitk S = Some c \<longrightarrow>
      (\<exists>c'. capacity (fst (allocate_slots_iiitk infile)) S = Some c' \<and> 0 \<le> c' \<and> c' \<le> c)) \<and>
   (''Allocated Slot'' \<in> set fn \<and> capacity st S = Some 0 \<and>
    S \<noteq> ''No slot allocated'' \<and> S \<noteq> ''Invalid email domain'' \<and>
    for_rows (process_row_gym fn) rows st = (st', err) \<longrightarrow>
      (\<forall>line \<in> set (drop (length (outfile st)) (outfile st')). allocated_of fn line \<noteq> S)) \<and>
   (''Allocated Slot'' \<in> set fn \<and> capacity st S = Some 0 \<and>
    S \<noteq> ''No slot allocated'' \<and> S \<noteq> ''Invalid email domain'' \<and>
    for_rows (process_row_iiitk fn) rows st = (st', err) \<longrightarrow>
      (\<forall>line \<in> set (drop (length (outfile st)) (outfile st')). allocated_of fn line \<noteq> S))"
proof (intro conjI impI ballI)
  show "capacity (fst (process_row_gym fn r st)) = capacity st \<or>
     (\<exists>S c. first_fit (capacity st) (labels_gym pref_keys_gym r) = Some S \<and>
            capacity st S = Some c \<and> 0 < c \<and>
            capacity (fst (process_row_gym fn r st)) = (capacity st)(S \<mapsto> c - 1))"
    by (rule mutation_gym)
  show "capacity (fst (process_row_iiitk fn r st)) = capacity st \<or>
     (\<exists>S c. first_fit (capacity st) (labels_iiitk preference_columns r) = Some S \<and>
            capacity st S = Some c \<and> 0 < c \<and>
            capacity (fst (process_row_iiitk fn r st)) = (capacity st)(S \<mapsto> c - 1))"
    by (rule mutation_iiitk)
next
  assume "capacity_gym S = Some c"
  then show "\<exists>c'. capacity (fst (allocate_slots_gym infile)) S = Some c' \<and> 0 \<le> c' \<and> c' \<le> c"
    by (rule run_gym_bounds)
next
  assume "capacity_iiitk S = Some c"
  then show "\<exists>c'. capacity (fst (allocate_slots_iiitk infile)) S = Some c' \<and> 0 \<le> c' \<and> c' \<le> c"
    by (rule run_iiitk_bounds)
next
  fix line
  assume h: "''Allocated Slot'' \<in> set fn \<and> capacity st S = Some 0 \<and>
    S \<noteq> ''No slot allocated'' \<and> S \<noteq> ''Invalid email domain'' \<and>
    for_rows (process_row_gym fn) rows st = (st', err)"
    and l: "line \<in> set (drop (length (outfile st)) (outfile st'))"
  from h have s: "S \<notin> sentinels" by (simp add: sentinels_def)
  from h have step: "\<And>r st. step_spec fn st (process_row_gym fn r st)"
    by (simp add: step_spec_gym)
  from h loop_zero [of fn "process_row_gym fn" rows st st' err S line, OF step _ _ s l]
  show "allocated_of fn line \<noteq> S" by blast
next
  fix line
  assume h: "''Allocated Slot'' \<in> set fn \<and> capacity st S = Some 0 \<and>
    S \<noteq> ''No slot allocated'' \<and> S \<noteq> ''Invalid email domain'' \<and>
    for_rows (process_row_iiitk fn) rows st = (st', err)"
    and l: "line \<in> set (drop (length (outfile st)) (outfile st'))"
  from h have s: "S \<notin> sentinels" by (simp add: sentinels_def)
  from h have step: "\<And>r st. step_spec fn st (process_row_iiitk fn r st)"
    by (simp add: step_spec_iiitk)
  from h loop_zero [of fn "process_row_iiitk fn" rows st st' err S line, OF step _ _ s l]
  show "allocated_of fn line \<noteq> S" by blast
qed

theorem capacity_only_decrements_witness:
  "capacity_gym ''SLOT 4 (5:30PM TO 7:00PM)'' = Some 5 \<and>
   (\<exists>c'. capacity (fst (allocate_slots_gym ex_file_gym)) ''SLOT 4 (5:30PM TO 7:00PM)'' = Some c'
      \<and> 0 \<le> c' \<and> c' \<le> 5) \<and>
   capacity_iiitk ''SLOT 6 (5:30PM TO 7:00PM)'' = Some 1 \<and>
   (\<exists>c'. capacity (fst (allocate_slots_iiitk ex_file_iiitk)) ''SLOT 6 (5:30PM TO 7:00PM)'' = Some c'
      \<and> 0 \<le> c' \<and> c' \<le> 1) \<and>
   capacity start_gym ''SLOT 5 (7:00PM TO 8:30PM)'' = Some 0 \<and>
   allocated_of ex_fn (last (outfile (fst (for_rows (process_row_gym ex_fn) [ex_row_gym] start_gym))))
     \<noteq> ''SLOT 5 (7:00PM TO 8:30PM)'' \<and>
   capacity ex_state_zero ''SLOT 7 (7:00PM TO 8:30PM)'' = Some 0 \<and>
   allocated_of ex_fn
     (last (outfile (fst (for_rows (process_row_iiitk ex_fn) [ex_row_iiitk] ex_state_zero))))
     \<noteq> ''SLOT 7 (7:00PM TO 8:30PM)''"
proof -
  let ?g = "for_rows (process_row_gym ex_fn) [ex_row_gym] start_gym"
  let ?i = "for_rows (process_row_iiitk ex_fn) [ex_row_iiitk] ex_state_zero"
  have fn: "''Allocated Slot'' \<in> set ex_fn" by (simp add: ex_fn_def)
  have c4: "capacity_gym ''SLOT 4 (5:30PM TO 7:00PM)'' = Some 5" by (simp add: capacity_gym_def)
  have c6: "capacity_iiitk ''SLOT 6 (5:30PM TO 7:00PM)'' = Some 1" by (simp add: capacity_iiitk_def)
  have z5: "capacity start_gym ''SLOT 5 (7:00PM TO 8:30PM)'' = Some 0"
    by (simp add: start_gym_def capacity_gym_def)
  have z7: "capacity ex_state_zero ''SLOT 7 (7:00PM TO 8:30PM)'' = Some 0"
    by (simp add: ex_state_zero_def)
  have n5: "''SLOT 5 (7:00PM TO 8:30PM)'' \<noteq> ''No slot allocated'' \<and>
            ''SLOT 5 (7:00PM TO 8:30PM)'' \<noteq> ''Invalid email domain''" by simp
  have n7: "''SLOT 7 (7:00PM TO 8:30PM)'' \<noteq> ''No slot allocated'' \<and>
            ''SLOT 7 (7:00PM TO 8:30PM)'' \<noteq> ''Invalid email domain''" by simp
  have lg: "last (outfile (fst ?g)) \<in> set (drop (length (outfile start_gym)) (outfile (fst ?g)))"
    by code_simp
  have li: "last (outfile (fst ?i)) \<in> set (drop (length (outfile ex_state_zero)) (outfile (fst ?i)))"
    by code_simp
  have hg: "''Allocated Slot'' \<in> set ex_fn \<and> capacity start_gym ''SLOT 5 (7:00PM TO 8:30PM)'' = Some 0 \<and>
      ''SLOT 5 (7:00PM TO 8:30PM)'' \<noteq> ''No slot allocated'' \<and>
      ''SLOT 5 (7:00PM TO 8:30PM)'' \<noteq> ''Invalid email domain'' \<and>
      ?g = (fst ?g, snd ?g)"
    using fn z5 n5 by simp
  have hi: "''Allocated Slot'' \<in> set ex_fn \<and> capacity ex_state_zero ''SLOT 7 (7:00PM TO 8:30PM)'' = Some 0 \<and>
      ''SLOT 7 (7:00PM TO 8:30PM)'' \<noteq> ''No slot allocated'' \<and>
      ''SLOT 7 (7:00PM TO 8:30PM)'' \<noteq> ''Invalid email domain'' \<and>
      ?i = (fst ?i, snd ?i)"
    using fn z7 n7 by simp
  note t = capacity_only_decrements
  have a: "\<exists>c'. capacity (fst (allocate_slots_gym ex_file_gym)) ''SLOT 4 (5:30PM TO 7:00PM)'' = Some c'
      \<and> 0 \<le> c' \<and> c' \<le> 5"
    using t [THEN conjunct2, THEN conjunct2, THEN conjunct1, rule_format, OF c4] .
  have b: "\<exists>c'. capacity (fst (allocate_slots_iiitk ex_file_iiitk)) ''SLOT 6 (5:30PM TO 7:00PM)'' = Some c'
      \<and> 0 \<le> c' \<and> c' \<le> 1"
    using t [THEN conjunct2, THEN conjunct2, THEN conjunct2, THEN conjunct1, rule_format, OF c6] .
  have c: "allocated_of ex_fn (last (outfile (fst ?g))) \<noteq> ''SLOT 5 (7:00PM TO 8:30PM)''"
    using t [THEN conjunct2, THEN conjunct2, THEN conjunct2, THEN conjunct2, THEN conjunct1,
        rule_format, OF hg lg] .
  have d: "allocated_of ex_fn (last (outfile (fst ?i))) \<noteq> ''SLOT 7 (7:00PM TO 8:30PM)''"
    using t [THEN conjunct2, THEN conjunct2, THEN conjunct2, THEN conjunct2, THEN conjunct2,
        rule_format, OF hi li] .
  from c4 a c6 b z5 c z7 d show ?thesis by blast
qed

subsection \<open>Coverage\<close>

lemma set_setitem: "set (setitem d k v) \<subseteq> insert (k, v) (set d)"
  by (induction d k v rule: setitem.induct) auto

lemma keys_dict_zip_eq:
  "fst ` set (dict_zip d ks vs) = fst ` set d \<union> set (take (length vs) ks)"
  by (induction d ks vs rule: dict_zip.induct) (auto simp: keys_setitem)

lemma keys_fill_restval_eq: "fst ` set (fill_restval d ks) = fst ` set d \<union> set ks"
  by (induction d ks rule: fill_restval.induct) (auto simp: keys_setitem)

lemma keys_read_row_eq: "fst ` set (items (read_row header line)) = set header"
proof -
  have "set (take (length line) header) \<union> set (drop (length line) header) = set header"
    by (metis append_take_drop_id set_append)
  then show ?thesis
    by (auto simp: read_row_def Let_def keys_dict_zip_eq keys_fill_restval_eq)
qed

lemma values_dict_zip:
  "None \<notin> snd ` set d \<Longrightarrow> None \<notin> snd ` set (dict_zip d ks vs)"
proof (induction d ks vs rule: dict_zip.induct)
  case (1 d k ks v vs)
  have "None \<notin> snd ` set (setitem d k (Some v))"
    using set_setitem [of d k "Some v"] "1.prems" by force
  then show ?case using "1.IH" by simp
qed simp_all

lemma values_read_row_full:
  assumes "length line = length header"
  shows "None \<notin> snd ` set (items (read_row header line))"
  using assms values_dict_zip [of "[]" header line] by (simp add: read_row_def Let_def)

lemma map_of_no_None:
  assumes "None \<notin> snd ` set d"
  shows "map_of d k \<noteq> Some None"
proof
  assume "map_of d k = Some None"
  then have "(k, None) \<in> set d" by (rule map_of_SomeD)
  then have "None \<in> snd ` set d" by force
  with assms show False by simp
qed

lemma get_strip_no_None:
  assumes "None \<notin> snd ` set (items r)"
  shows "\<exists>s. get_strip r key = Inr s"
  using map_of_no_None [OF assms, of key]
  by (auto simp: get_strip_def split: option.splits)

lemma writerow_ok:
  assumes "rest r = None" "fst ` set (items r) \<subseteq> set fn" "''Allocated Slot'' \<in> set fn"
  shows "\<exists>line. emit fn r v st cap' = (\<lparr>capacity = cap', outfile = outfile st @ [line]\<rparr>, None)"
  using assms by (simp add: emit_def writerow_set_allocated)

lemma process_row_gym_ok:
  assumes w: "rest r = None" "fst ` set (items r) \<subseteq> set fn" "''Allocated Slot'' \<in> set fn"
    and p: "\<forall>k \<in> set pref_keys_gym. map_of (items r) k \<noteq> None"
  shows "snd (process_row_gym fn r st) = None"
proof -
  from find_slot_gym_total [OF p] obtain a cap' where
    f: "find_slot_gym pref_keys_gym r (capacity st) = Inr (a, cap')" by (metis surj_pair)
  from writerow_ok [OF w, of "outcome_of a" st cap'] show ?thesis
    by (auto simp: process_row_gym_emit f)
qed

lemma process_row_iiitk_ok:
  assumes w: "rest r = None" "fst ` set (items r) \<subseteq> set fn" "''Allocated Slot'' \<in> set fn"
    and p: "None \<notin> snd ` set (items r)"
  shows "snd (process_row_iiitk fn r st) = None"
proof -
  from get_strip_no_None [OF p] obtain email where em: "get_strip r ''Email'' = Inr email" by blast
  have "\<forall>k \<in> set preference_columns. map_of (items r) k \<noteq> Some None"
    using map_of_no_None [OF p] by blast
  from find_slot_iiitk_total [OF this] obtain a cap' where
    f: "find_slot_iiitk preference_columns r (capacity st) = Inr (a, cap')" by (metis surj_pair)
  from writerow_ok [OF w, of "outcome_of a" st cap']
    writerow_ok [OF w, of "''Invalid email domain''" st "capacity st"]
  show ?thesis
    by (auto simp: process_row_iiitk_emit em f)
qed

lemma for_rows_ok:
  "\<forall>r \<in> set rows. \<forall>st. snd (body r st) = None \<Longrightarrow> snd (for_rows body rows st) = None"
proof (induction rows arbitrary: st)
  case Nil
  then show ?case by simp
next
  case (Cons r rs)
  obtain st1 e1 where b: "body r st = (st1, e1)" by (cases "body r st")
  from Cons.prems have "snd (body r st) = None" by simp
  with b have "e1 = None" by simp
  with b Cons show ?case by simp
qed

lemma read_row_writable:
  "length line \<le> length header \<Longrightarrow>
   rest (read_row header line) = None \<and> fst ` set (items (read_row header line)) \<subseteq> set header"
  by (simp add: rest_read_row keys_read_row)

lemma allocate_slots_gym_Cons:
  "allocate_slots_gym (header # lines) =
     for_rows (process_row_gym (fieldnames_gym header)) (DictReader header lines)
       \<lparr>capacity = capacity_gym, outfile = [fieldnames_gym header]\<rparr>"
  by (simp add: allocate_slots_gym_def)

lemma allocate_slots_iiitk_Cons:
  "allocate_slots_iiitk (header # lines) =
     for_rows (process_row_iiitk (fieldnames_iiitk header)) (DictReader header lines)
       \<lparr>capacity = capacity_iiitk, outfile = [fieldnames_iiitk header]\<rparr>"
  by (simp add: allocate_slots_iiitk_def)

lemma run_length:
  assumes step: "\<And>r st. step_spec fn st (body r st)"
    and run: "for_rows body rows \<lparr>capacity = cap, outfile = [fn]\<rparr> = (st', err)"
  shows "length (records (outfile st')) \<le> length rows \<and>
         (err = None \<longrightarrow> length (records (outfile st')) = length rows)"
proof -
  from loop_out [of fn body, OF step run] obtain new where
    new: "outfile st' = [fn] @ new"
      "case err of None \<Rightarrow> length new = length rows | Some e \<Rightarrow> length new < length rows"
    by auto
  then show ?thesis by (cases err) simp_all
qed

lemma run_nth:
  assumes step: "\<And>r st. step_spec fn st (body r st)"
    and run: "for_rows body rows \<lparr>capacity = cap, outfile = [fn]\<rparr> = (st', err)"
    and i: "i < length (records (outfile st'))"
  shows "i < length rows \<and>
         (\<exists>sti sti'. for_rows body (take i rows) \<lparr>capacity = cap, outfile = [fn]\<rparr> = (sti, None) \<and>
            dom (capacity sti) = dom cap \<and>
            body (rows ! i) sti = (sti', None) \<and>
            outfile sti' = outfile sti @ [records (outfile st') ! i] \<and>
            for_rows body (drop (Suc i) rows) sti' = (st', err))"
proof -
  let ?st = "\<lparr>capacity = cap, outfile = [fn]\<rparr>"
  from loop_out [of fn body, OF step run] obtain new where
    new: "outfile st' = outfile ?st @ new" by blast
  then have rec: "records (outfile st') = new" by simp
  from loop_nth [of fn body rows ?st st' err new i, OF step run new] i rec
  obtain sti sti' where
    h: "i < length rows" "for_rows body (take i rows) ?st = (sti, None)"
       "body (rows ! i) sti = (sti', None)" "outfile sti' = outfile sti @ [new ! i]"
       "for_rows body (drop (Suc i) rows) sti' = (st', err)"
    by auto
  have "dom (capacity sti) = dom cap"
    using loop_dom [of fn body, OF step h(2)] by simp
  with h rec show ?thesis by auto
qed

lemma run_gym_complete:
  assumes len: "\<forall>l \<in> set lines. length l \<le> length header"
    and prefs: "set pref_keys_gym \<subseteq> set header"
  shows "snd (allocate_slots_gym (header # lines)) = None"
proof -
  let ?fn = "fieldnames_gym header"
  have "\<forall>r \<in> set (DictReader header lines). \<forall>st. snd (process_row_gym ?fn r st) = None"
  proof (intro ballI allI)
    fix r st
    assume "r \<in> set (DictReader header lines)"
    then obtain l where l: "l \<in> set lines" "r = read_row header l"
      by (auto simp: DictReader_def)
    with len have le: "length l \<le> length header" by blast
    have w: "rest r = None" "fst ` set (items r) \<subseteq> set ?fn"
      using read_row_writable [OF le] l(2) by (auto simp: fieldnames_gym_def)
    have "\<forall>k \<in> set pref_keys_gym. map_of (items r) k \<noteq> None"
      using prefs keys_read_row_eq [of header l] l(2) by (auto simp: map_of_eq_None_iff)
    from process_row_gym_ok [OF w fieldnames_gym_has this]
    show "snd (process_row_gym ?fn r st) = None" .
  qed
  from for_rows_ok [OF this] show ?thesis by (simp add: allocate_slots_gym_Cons)
qed

lemma run_iiitk_complete:
  assumes len: "\<forall>l \<in> set lines. l \<noteq> [] \<longrightarrow> length l = length header"
  shows "snd (allocate_slots_iiitk (header # lines)) = None"
proof -
  let ?fn = "fieldnames_iiitk header"
  have "\<forall>r \<in> set (DictReader header lines). \<forall>st. snd (process_row_iiitk ?fn r st) = None"
  proof (intro ballI allI)
    fix r st
    assume "r \<in> set (DictReader header lines)"
    then obtain l where l: "l \<in> set lines" "l \<noteq> []" "r = read_row header l"
      by (auto simp: DictReader_def)
    with len have le: "length l = length header" by blast
    then have "length l \<le> length header" by simp
    from read_row_writable [OF this] have w: "rest r = None" "fst ` set (items r) \<subseteq> set ?fn"
      using l(3) by (auto simp: fieldnames_iiitk_def)
    from process_row_iiitk_ok [OF w fieldnames_iiitk_has] values_read_row_full [OF le] l(3)
    show "snd (process_row_iiitk ?fn r st) = None" by simp
  qed
  from for_rows_ok [OF this] show ?thesis by (simp add: allocate_slots_iiitk_Cons)
qed

lemma run_gym_outcomes:
  assumes o: "out \<in> set (outcomes (outfile (fst (allocate_slots_gym infile))))"
  shows "out \<in> dom capacity_gym \<or> out = ''No slot allocated''"
proof (cases infile)
  case Nil
  with o show ?thesis by (simp add: allocate_slots_gym_def)
next
  case (Cons header lines)
  let ?fn = "fieldnames_gym header"
  let ?body = "process_row_gym ?fn"
  let ?rows = "DictReader header lines"
  let ?st = "\<lparr>capacity = capacity_gym, outfile = [?fn]\<rparr>"
  obtain st' err where run: "for_rows ?body ?rows ?st = (st', err)" by (meson surj_pair)
  have step: "\<And>r st. step_spec ?fn st (?body r st)" by (rule step_spec_gym [OF fieldnames_gym_has])
  from loop_out [of ?fn ?body, OF step run] obtain new where
    new: "outfile st' = [?fn] @ new" by auto
  from o Cons run new have "out \<in> set (map (allocated_of ?fn) new)"
    by (simp add: allocate_slots_gym_Cons)
  then obtain i where i: "i < length new" "out = allocated_of ?fn (new ! i)"
    by (auto simp: in_set_conv_nth)
  from new i(1) have "i < length (records (outfile st'))" by simp
  from run_nth [of ?fn ?body, OF step run this] new obtain sti sti' where
    h: "dom (capacity sti) = dom capacity_gym" "?body (?rows ! i) sti = (sti', None)"
       "outfile sti' = outfile sti @ [new ! i]"
    by auto
  have "capacity sti [] = None"
    using h(1) capacity_gym_keys [of "[]"] by (metis domIff option.exhaust)
  from pass_gym [OF fieldnames_gym_has h(2) this] h(1,3) i(2)
  show ?thesis by (auto split: option.splits)
qed

lemma run_iiitk_outcomes:
  assumes o: "out \<in> set (outcomes (outfile (fst (allocate_slots_iiitk infile))))"
  shows "out \<in> dom capacity_iiitk \<or> out = ''No slot allocated'' \<or> out = ''Invalid email domain''"
proof (cases infile)
  case Nil
  with o show ?thesis by (simp add: allocate_slots_iiitk_def)
next
  case (Cons header lines)
  let ?fn = "fieldnames_iiitk header"
  let ?body = "process_row_iiitk ?fn"
  let ?rows = "DictReader header lines"
  let ?st = "\<lparr>capacity = capacity_iiitk, outfile = [?fn]\<rparr>"
  obtain st' err where run: "for_rows ?body ?rows ?st = (st', err)" by (meson surj_pair)
  have step: "\<And>r st. step_spec ?fn st (?body r st)"
    by (rule step_spec_iiitk [OF fieldnames_iiitk_has])
  from loop_out [of ?fn ?body, OF step run] obtain new where
    new: "outfile st' = outfile ?st @ new" by blast
  from o Cons run new obtain line where l: "line \<in> set new" "out = allocated_of ?fn line"
    by (auto simp: allocate_slots_iiitk_Cons)
  from loop_outcomes [of ?fn ?body, OF step run new l(1)] l(2)
  show ?thesis by (auto simp: sentinels_def)
qed

text \<open>
  A line with more cells than the header ends the run in either variant: the reader
  keeps the extra cells under the key \<^verbatim>\<open>None\<close>, which the writer refuses with
  \<^verbatim>\<open>ValueError\<close>. One input record, no output record.
\<close>

theorem coverage_counterexample:
  "length (DictReader [''Email''] [[''a@iiitk.ac.in'', ''x'']]) = 1 \<and>
   snd (allocate_slots_iiitk [[''Email''], [''a@iiitk.ac.in'', ''x'']]) = Some ValueError \<and>
   length (records (outfile (fst (allocate_slots_iiitk [[''Email''], [''a@iiitk.ac.in'', ''x'']])))) = 0 \<and>
   length (DictReader [''SLOT PREFERENCE : 1'', ''SLOT PREFERENCE : 2'', ''SLOT PREFERENCE : 3'']
             [[''p'', ''q'', ''r'', ''x'']]) = 1 \<and>
   snd (allocate_slots_gym
          [[''SLOT PREFERENCE : 1'', ''SLOT PREFERENCE : 2'', ''SLOT PREFERENCE : 3''],
           [''p'', ''q'', ''r'', ''x'']]) = Some ValueError \<and>
   length (records (outfile (fst (allocate_slots_gym
          [[''SLOT PREFERENCE : 1'', ''SLOT PREFERENCE : 2'', ''SLOT PREFERENCE : 3''],
           [''p'', ''q'', ''r'', ''x'']])))) = 0"
  by code_simp

text \<open>
  C3 (coverage), as amended. The input records are the non-blank lines after the header,
  as the reader yields them. A run that ends without an exception writes as many output
  records as there are input records; any run writes at most that many. A run ends
  without an exception when no line has more cells than the header and the header holds
  the three preference columns (base variant), or when every non-blank line has exactly
  as many cells as the header (extended variant). In every run, each output record
  written has as outcome a configured slot, the text for no slot, or (extended variant
  only) the text for an invalid email domain.
\<close>

theorem coverage:
  "(snd (allocate_slots_gym (header # lines)) = None \<longrightarrow>
      length (records (outfile (fst (allocate_slots_gym (header # lines)))))
        = length (DictReader header lines)) \<and>
   (snd (allocate_slots_iiitk (header # lines)) = None \<longrightarrow>
      length (records (outfile (fst (allocate_slots_iiitk (header # lines)))))
        = length (DictReader header lines)) \<and>
   length (records (outfile (fst (allocate_slots_gym (header # lines)))))
        \<le> length (DictReader header lines) \<and>
   length (records (outfile (fst (allocate_slots_iiitk (header # lines)))))
        \<le> length (DictReader header lines) \<and>
   ((\<forall>l \<in> set lines. length l \<le> length header) \<and> set pref_keys_gym \<subseteq> set header \<longrightarrow>
      snd (allocate_slots_gym (header # lines)) = None) \<and>
   ((\<forall>l \<in> set lines. l \<noteq> [] \<longrightarrow> length l = length header) \<longrightarrow>
      snd (allocate_slots_iiitk (header # lines)) = None) \<and>
   (\<forall>out \<in> set (outcomes (outfile (fst (allocate_slots_gym infile)))).
      out \<in> dom capacity_gym \<or> out = ''No slot allocated'') \<and>
   (\<forall>out \<in> set (outcomes (outfile (fst (allocate_slots_iiitk infile)))).
      out \<in> dom capacity_iiitk \<or> out = ''No slot allocated'' \<or> out = ''Invalid email domain'')"
proof -
  let ?g = "allocate_slots_gym (header # lines)"
  let ?i = "allocate_slots_iiitk (header # lines)"
  have g: "length (records (outfile (fst ?g))) \<le> length (DictReader header lines) \<and>
      (snd ?g = None \<longrightarrow> length (records (outfile (fst ?g))) = length (DictReader header lines))"
    using run_length [of "fieldnames_gym header" "process_row_gym (fieldnames_gym header)"
        "DictReader header lines" capacity_gym "fst ?g" "snd ?g",
        OF step_spec_gym [OF fieldnames_gym_has]]
    by (simp add: allocate_slots_gym_Cons)
  have i: "length (records (outfile (fst ?i))) \<le> length (DictReader header lines) \<and>
      (snd ?i = None \<longrightarrow> length (records (outfile (fst ?i))) = length (DictReader header lines))"
    using run_length [of "fieldnames_iiitk header" "process_row_iiitk (fieldnames_iiitk header)"
        "DictReader header lines" capacity_iiitk "fst ?i" "snd ?i",
        OF step_spec_iiitk [OF fieldnames_iiitk_has]]
    by (simp add: allocate_slots_iiitk_Cons)
  have cg: "(\<forall>l \<in> set lines. length l \<le> length header) \<and> set pref_keys_gym \<subseteq> set header \<longrightarrow>
      snd ?g = None"
    using run_gym_complete [of lines header] by blast
  have ci: "(\<forall>l \<in> set lines. l \<noteq> [] \<longrightarrow> length l = length header) \<longrightarrow> snd ?i = None"
    using run_iiitk_complete [of lines header] by blast
  have og: "\<forall>out \<in> set (outcomes (outfile (fst (allocate_slots_gym infile)))).
      out \<in> dom capacity_gym \<or> out = ''No slot allocated''"
    using run_gym_outcomes by blast
  have oi: "\<forall>out \<in> set (outcomes (outfile (fst (allocate_slots_iiitk infile)))).
      out \<in> dom capacity_iiitk \<or> out = ''No slot allocated'' \<or> out = ''Invalid email domain''"
    using run_iiitk_outcomes by blast
  from g i cg ci og oi show ?thesis by blast
qed

theorem coverage_witness:
  "snd (allocate_slots_gym ex_file_gym) = None \<and>
   length (records (outfile (fst (allocate_slots_gym ex_file_gym)))) = 3 \<and>
   snd (allocate_slots_iiitk ex_file_iiitk) = None \<and>
   length (records (outfile (fst (allocate_slots_iiitk ex_file_iiitk)))) = 4 \<and>
   (hd (outcomes (outfile (fst (allocate_slots_gym ex_file_gym)))) \<in> dom capacity_gym \<or>
    hd (outcomes (outfile (fst (allocate_slots_gym ex_file_gym)))) = ''No slot allocated'') \<and>
   (hd (outcomes (outfile (fst (allocate_slots_iiitk ex_file_iiitk)))) \<in> dom capacity_iiitk \<or>
    hd (outcomes (outfile (fst (allocate_slots_iiitk ex_file_iiitk)))) = ''No slot allocated'' \<or>
    hd (outcomes (outfile (fst (allocate_slots_iiitk ex_file_iiitk)))) = ''Invalid email domain'')"
proof -
  let ?hg = "[''Name'', ''SLOT PREFERENCE : 1'', ''SLOT PREFERENCE : 2'', ''SLOT PREFERENCE : 3'']"
  let ?lg = "[[''A'', ''SLOT 5 (7:00PM TO 8:30PM)'', ''SLOT 4 (5:30PM TO 7:00PM)'', ''''],
      [],
      [''B'', ''SLOT 4 (5:30PM TO 7:00PM)'', ''SLOT 5 (7:00PM TO 8:30PM)'', ''''],
      [''C'', ''SLOT 5 (7:00PM TO 8:30PM)'']]"
  let ?hi = "[''Email'', ''SLOT PREFERENCE : 1'', ''SLOT PREFERENCE : 2'']"
  let ?li = "[[''a@iiitk.ac.in'', ''SLOT 6 (5:30PM TO 7:00PM)'', ''SLOT 7 (7:00PM TO 8:30PM)''],
      [''b@other.com'', ''SLOT 7 (7:00PM TO 8:30PM)'', ''''],
      ['' B@IIITK.AC.IN '', '' SLOT 6 (5:30PM TO 7:00PM) '', ''SLOT 7 (7:00PM TO 8:30PM)''],
      [''c@iiitk.ac.in'', ''SLOT 6 (5:30PM TO 7:00PM)'', ''SLOT 7 (7:00PM TO 8:30PM)'']]"
  have eg: "ex_file_gym = ?hg # ?lg" by (simp add: ex_file_gym_def)
  have ei: "ex_file_iiitk = ?hi # ?li" by (simp add: ex_file_iiitk_def)
  have hg: "(\<forall>l \<in> set ?lg. length l \<le> length ?hg) \<and> set pref_keys_gym \<subseteq> set ?hg"
    by (simp add: pref_keys_gym_def)
  have hi: "\<forall>l \<in> set ?li. l \<noteq> [] \<longrightarrow> length l = length ?hi" by simp
  have ng: "length (DictReader ?hg ?lg) = 3" by (simp add: DictReader_def)
  have ni: "length (DictReader ?hi ?li) = 4" by (simp add: DictReader_def)
  note tg = coverage [of ?hg ?lg "?hg # ?lg"]
  note ti = coverage [of ?hi ?li "?hi # ?li"]
  have g0: "snd (allocate_slots_gym (?hg # ?lg)) = None"
    using tg [THEN conjunct2, THEN conjunct2, THEN conjunct2, THEN conjunct2, THEN conjunct1] hg
    by blast
  have g1: "length (records (outfile (fst (allocate_slots_gym (?hg # ?lg))))) = 3"
    using tg [THEN conjunct1] g0 ng by simp
  have sg: "hd (outcomes (outfile (fst (allocate_slots_gym (?hg # ?lg)))))
      \<in> set (outcomes (outfile (fst (allocate_slots_gym (?hg # ?lg)))))"
    by code_simp
  have g2: "hd (outcomes (outfile (fst (allocate_slots_gym (?hg # ?lg))))) \<in> dom capacity_gym \<or>
      hd (outcomes (outfile (fst (allocate_slots_gym (?hg # ?lg))))) = ''No slot allocated''"
    using tg [THEN conjunct2, THEN conjunct2, THEN conjunct2, THEN conjunct2, THEN conjunct2,
        THEN conjunct2, THEN conjunct1] sg by blast
  have i0: "snd (allocate_slots_iiitk (?hi # ?li)) = None"
    using ti [THEN conjunct2, THEN conjunct2, THEN conjunct2, THEN conjunct2, THEN conjunct2,
        THEN conjunct1] hi by blast
  have i1: "length (records (outfile (fst (allocate_slots_iiitk (?hi # ?li))))) = 4"
    using ti [THEN conjunct2, THEN conjunct1] i0 ni by simp
  have si: "hd (outcomes (outfile (fst (allocate_slots_iiitk (?hi # ?li)))))
      \<in> set (outcomes (outfile (fst (allocate_slots_iiitk (?hi # ?li)))))"
    by code_simp
  have i2: "hd (outcomes (outfile (fst (allocate_slots_iiitk (?hi # ?li))))) \<in> dom capacity_iiitk \<or>
      hd (outcomes (outfile (fst (allocate_slots_iiitk (?hi # ?li))))) = ''No slot allocated'' \<or>
      hd (outcomes (outfile (fst (allocate_slots_iiitk (?hi # ?li))))) = ''Invalid email domain''"
    using ti [THEN conjunct2, THEN conjunct2, THEN conjunct2, THEN conjunct2, THEN conjunct2,
        THEN conjunct2, THEN conjunct2] si by blast
  from g0 g1 g2 i0 i1 i2 show ?thesis unfolding eg ei by blast
qed

subsection \<open>The records written\<close>

lemma map_of_dict_zip:
  "distinct ks \<Longrightarrow>
   map_of (dict_zip d ks vs) x =
     (case map_of (zip ks vs) x of Some v \<Rightarrow> Some (Some v) | None \<Rightarrow> map_of d x)"
proof (induction d ks vs rule: dict_zip.induct)
  case (1 d k ks v vs)
  have "map_of (zip ks vs) k = None"
    using "1.prems" by (auto simp: map_of_eq_None_iff dest: set_zip_leftD)
  with 1 show ?case by (auto simp: map_of_setitem split: option.splits)
qed simp_all

lemma map_of_fill_restval:
  "map_of (fill_restval d ks) x = (if x \<in> set ks then Some None else map_of d x)"
  by (induction d ks rule: fill_restval.induct) (auto simp: map_of_setitem)

lemma zip_shorter: "length ys \<le> length xs \<Longrightarrow> zip xs ys = zip (take (length ys) xs) ys"
proof (induction xs arbitrary: ys)
  case Nil
  then show ?case by simp
next
  case (Cons x xs)
  then show ?case by (cases ys) simp_all
qed

lemma cell_read_row:
  assumes d: "distinct header" and le: "length line \<le> length header" and j: "j < length header"
  shows "cell (items (read_row header line)) (header ! j)
           = (if j < length line then line ! j else [])"
proof (cases "j < length line")
  case True
  let ?h = "take (length line) header"
  have hj: "header ! j = ?h ! j" using True by simp
  have "map_of (zip ?h line) (?h ! j) = Some (line ! j)"
    using d le True by (intro map_of_zip_nth) simp_all
  then have z: "map_of (zip header line) (header ! j) = Some (line ! j)"
    using zip_shorter [OF le] hj by simp
  have nd: "header ! j \<notin> set (drop (length line) header)"
  proof
    assume "header ! j \<in> set (drop (length line) header)"
    then obtain m where m: "m < length header - length line"
        "drop (length line) header ! m = header ! j"
      by (auto simp: in_set_conv_nth)
    then have "header ! (length line + m) = header ! j" using le by simp
    with d j m(1) have "length line + m = j" by (simp add: nth_eq_iff_index_eq)
    with True show False by simp
  qed
  show ?thesis using True z nd d le
    by (simp add: read_row_def Let_def cell_def map_of_dict_zip map_of_fill_restval)
next
  case False
  then have "header ! j \<in> set (drop (length line) header)"
    using j by (auto simp: in_set_conv_nth intro!: exI [of _ "j - length line"])
  with False j le show ?thesis
    by (simp add: read_row_def Let_def cell_def map_of_fill_restval)
qed

lemma cells_read_row:
  assumes d: "distinct header" and le: "length line \<le> length header"
  shows "map (cell (items (read_row header line))) header
           = line @ replicate (length header - length line) []"
proof (rule nth_equalityI)
  show "length (map (cell (items (read_row header line))) header)
      = length (line @ replicate (length header - length line) [])"
    using le by simp
next
  fix j assume "j < length (map (cell (items (read_row header line))) header)"
  then have j: "j < length header" by simp
  show "map (cell (items (read_row header line))) header ! j
      = (line @ replicate (length header - length line) []) ! j"
    using cell_read_row [OF d le j] j by (simp add: nth_append)
qed

lemma cell_set_allocated:
  "cell (setitem d ''Allocated Slot'' (Some v)) k = (if k = ''Allocated Slot'' then v else cell d k)"
  by (simp add: cell_setitem_same cell_setitem_other)

lemma emit_line:
  assumes e: "emit fn r v st cap' = (st', None)"
  shows "outfile st' = outfile st @
           [map (\<lambda>k. if k = ''Allocated Slot'' then v else cell (items r) k) fn]"
proof (cases "writerow fn (set_allocated r v)")
  case (Inl err)
  with e show ?thesis by (simp add: emit_def)
next
  case (Inr line)
  from writerow_Inr [OF Inr] have "line = map (cell (setitem (items r) ''Allocated Slot'' (Some v))) fn"
    by (simp add: set_allocated_def)
  then have "line = map (\<lambda>k. if k = ''Allocated Slot'' then v else cell (items r) k) fn"
    by (simp add: cell_set_allocated)
  with e Inr show ?thesis by (auto simp: emit_def)
qed

lemma pass_line_gym:
  assumes p: "process_row_gym fn r st = (st', None)"
  shows "\<exists>v. outfile st' = outfile st @
           [map (\<lambda>k. if k = ''Allocated Slot'' then v else cell (items r) k) fn]"
proof (cases "find_slot_gym pref_keys_gym r (capacity st)")
  case (Inl e)
  with p show ?thesis by (simp add: process_row_gym_emit)
next
  case (Inr q)
  obtain a cap' where q: "q = (a, cap')" by (cases q)
  from p have "emit fn r (outcome_of a) st cap' = (st', None)"
    by (simp add: process_row_gym_emit Inr q)
  from emit_line [OF this] show ?thesis by blast
qed

lemma pass_line_iiitk:
  assumes p: "process_row_iiitk fn r st = (st', None)"
  shows "\<exists>v. outfile st' = outfile st @
           [map (\<lambda>k. if k = ''Allocated Slot'' then v else cell (items r) k) fn]"
proof (cases "get_strip r ''Email''")
  case (Inl e)
  with p show ?thesis by (simp add: process_row_iiitk_emit)
next
  case em: (Inr email)
  show ?thesis
  proof (cases "valid_email (lower email)")
    case False
    with p em have "emit fn r ''Invalid email domain'' st (capacity st) = (st', None)"
      by (simp add: process_row_iiitk_emit)
    from emit_line [OF this] show ?thesis by blast
  next
    case v: True
    show ?thesis
    proof (cases "find_slot_iiitk preference_columns r (capacity st)")
      case (Inl e)
      with p em v show ?thesis by (simp add: process_row_iiitk_emit)
    next
      case (Inr q)
      obtain a cap' where q: "q = (a, cap')" by (cases q)
      from p em v have "emit fn r (outcome_of a) st cap' = (st', None)"
        by (simp add: process_row_iiitk_emit Inr q)
      from emit_line [OF this] show ?thesis by blast
    qed
  qed
qed

lemma allocated_of_line:
  assumes "''Allocated Slot'' \<in> set fn"
  shows "allocated_of fn (map (\<lambda>k. if k = ''Allocated Slot'' then v else f k) fn) = v"
  using assms by (simp add: allocated_of_def map_of_zip_map)

text \<open>Record \<open>i\<close> of a run, for a loop body that writes rows of that shape.\<close>

lemma run_record:
  assumes step: "\<And>r st. step_spec fn st (body r st)"
    and line: "\<And>r st st'. body r st = (st', None) \<Longrightarrow>
        \<exists>v. outfile st' = outfile st @
           [map (\<lambda>k. if k = ''Allocated Slot'' then v else cell (items r) k) fn]"
    and fn: "''Allocated Slot'' \<in> set fn"
    and run: "for_rows body rows \<lparr>capacity = cap, outfile = [fn]\<rparr> = (st', err)"
    and i: "i < length (records (outfile st'))"
  shows "records (outfile st') ! i =
           map (\<lambda>k. if k = ''Allocated Slot'' then outcomes (outfile st') ! i
                     else cell (items (rows ! i)) k) fn"
proof -
  from loop_out [of fn body, OF step run] obtain new where
    new: "outfile st' = [fn] @ new" by auto
  from run_nth [of fn body, OF step run i] obtain sti sti' where
    h: "body (rows ! i) sti = (sti', None)"
       "outfile sti' = outfile sti @ [records (outfile st') ! i]"
    by blast
  from line [OF h(1)] h(2) obtain v where
    v: "records (outfile st') ! i
         = map (\<lambda>k. if k = ''Allocated Slot'' then v else cell (items (rows ! i)) k) fn"
    by auto
  have "outcomes (outfile st') ! i = allocated_of fn (records (outfile st') ! i)"
    using new i by simp
  also have "\<dots> = v" unfolding v using fn by (rule allocated_of_line)
  finally show ?thesis using v by simp
qed

lemma map_appended:
  assumes "''Allocated Slot'' \<notin> set header"
  shows "map (\<lambda>k. if k = ''Allocated Slot'' then v else f k) (header @ [''Allocated Slot''])
           = map f header @ [v]"
  using assms by (auto intro: map_cong)

lemma run_header:
  assumes step: "\<And>r st. step_spec fn st (body r st)"
    and run: "for_rows body rows \<lparr>capacity = cap, outfile = [fn]\<rparr> = (st', err)"
  shows "hd (outfile st') = fn"
proof -
  from loop_out [of fn body, OF step run] obtain new where "outfile st' = [fn] @ new" by auto
  then show ?thesis by simp
qed

lemma record_gym:
  assumes i: "i < length (records (outfile (fst (allocate_slots_gym (header # lines)))))"
  shows "hd (outfile (fst (allocate_slots_gym (header # lines)))) = fieldnames_gym header \<and>
    records (outfile (fst (allocate_slots_gym (header # lines)))) ! i =
      map (\<lambda>k. if k = ''Allocated Slot''
                then outcomes (outfile (fst (allocate_slots_gym (header # lines)))) ! i
                else cell (items (DictReader header lines ! i)) k) (fieldnames_gym header)"
proof -
  let ?fn = "fieldnames_gym header"
  let ?body = "process_row_gym ?fn"
  let ?res = "allocate_slots_gym (header # lines)"
  have step: "\<And>r st. step_spec ?fn st (?body r st)" by (rule step_spec_gym [OF fieldnames_gym_has])
  have run: "for_rows ?body (DictReader header lines) \<lparr>capacity = capacity_gym, outfile = [?fn]\<rparr>
      = (fst ?res, snd ?res)" by (simp add: allocate_slots_gym_Cons)
  from run_header [of ?fn ?body, OF step run]
    run_record [of ?fn ?body, OF step pass_line_gym fieldnames_gym_has run i]
  show ?thesis by simp
qed

lemma record_iiitk:
  assumes i: "i < length (records (outfile (fst (allocate_slots_iiitk (header # lines)))))"
  shows "hd (outfile (fst (allocate_slots_iiitk (header # lines)))) = fieldnames_iiitk header \<and>
    records (outfile (fst (allocate_slots_iiitk (header # lines)))) ! i =
      map (\<lambda>k. if k = ''Allocated Slot''
                then outcomes (outfile (fst (allocate_slots_iiitk (header # lines)))) ! i
                else cell (items (DictReader header lines ! i)) k) (fieldnames_iiitk header)"
proof -
  let ?fn = "fieldnames_iiitk header"
  let ?body = "process_row_iiitk ?fn"
  let ?res = "allocate_slots_iiitk (header # lines)"
  have step: "\<And>r st. step_spec ?fn st (?body r st)"
    by (rule step_spec_iiitk [OF fieldnames_iiitk_has])
  have run: "for_rows ?body (DictReader header lines) \<lparr>capacity = capacity_iiitk, outfile = [?fn]\<rparr>
      = (fst ?res, snd ?res)" by (simp add: allocate_slots_iiitk_Cons)
  from run_header [of ?fn ?body, OF step run]
    run_record [of ?fn ?body, OF step pass_line_iiitk fieldnames_iiitk_has run i]
  show ?thesis by simp
qed

text \<open>
  On a header that already has the \<^verbatim>\<open>Allocated Slot\<close> column the extended variant writes
  the outcome into that column: the output record has the fields of the input record,
  none appended, and the cell the input had in that column is gone. And on a header
  that repeats a name, in either variant, the reader keeps one cell under that name, the
  last of the line, and the writer puts it in every column of that name: the first of
  the two cells of the line is gone from the output record.
\<close>

theorem order_and_fields_counterexample:
  "outfile (fst (allocate_slots_iiitk
      [[''Email'', ''Allocated Slot''], [''a@other.com'', ''old'']]))
     = [[''Email'', ''Allocated Slot''], [''a@other.com'', ''Invalid email domain'']] \<and>
   records (outfile (fst (allocate_slots_iiitk
      [[''Email'', ''Allocated Slot''], [''a@other.com'', ''old'']]))) ! 0
     \<noteq> [''a@other.com'', ''old''] @
        [outcomes (outfile (fst (allocate_slots_iiitk
           [[''Email'', ''Allocated Slot''], [''a@other.com'', ''old'']]))) ! 0] \<and>
   outfile (fst (allocate_slots_iiitk
      [[''Name'', ''Name'', ''Email''], [''first'', ''last'', ''a@other.com'']]))
     = [[''Name'', ''Name'', ''Email'', ''Allocated Slot''],
        [''last'', ''last'', ''a@other.com'', ''Invalid email domain'']] \<and>
   records (outfile (fst (allocate_slots_iiitk
      [[''Name'', ''Name'', ''Email''], [''first'', ''last'', ''a@other.com'']]))) ! 0
     \<noteq> [''first'', ''last'', ''a@other.com''] @
        [outcomes (outfile (fst (allocate_slots_iiitk
           [[''Name'', ''Name'', ''Email''], [''first'', ''last'', ''a@other.com'']]))) ! 0] \<and>
   outfile (fst (allocate_slots_gym
      [[''Name'', ''Name'', ''SLOT PREFERENCE : 1'', ''SLOT PREFERENCE : 2'', ''SLOT PREFERENCE : 3''],
       [''first'', ''last'', ''x'', ''y'', ''z'']]))
     = [[''Name'', ''Name'', ''SLOT PREFERENCE : 1'', ''SLOT PREFERENCE : 2'',
         ''SLOT PREFERENCE : 3'', ''Allocated Slot''],
        [''last'', ''last'', ''x'', ''y'', ''z'', ''No slot allocated'']] \<and>
   records (outfile (fst (allocate_slots_gym
      [[''Name'', ''Name'', ''SLOT PREFERENCE : 1'', ''SLOT PREFERENCE : 2'', ''SLOT PREFERENCE : 3''],
       [''first'', ''last'', ''x'', ''y'', ''z'']]))) ! 0
     \<noteq> [''first'', ''last'', ''x'', ''y'', ''z''] @
        [outcomes (outfile (fst (allocate_slots_gym
           [[''Name'', ''Name'', ''SLOT PREFERENCE : 1'', ''SLOT PREFERENCE : 2'',
             ''SLOT PREFERENCE : 3''],
            [''first'', ''last'', ''x'', ''y'', ''z'']]))) ! 0]"
  by code_simp

text \<open>
  C4 (order and fields), as amended. Output record \<open>i\<close>, for every \<open>i\<close> below the number
  of records written, comes from input record \<open>i\<close> (the \<open>i\<close>-th non-blank line after
  the header, as the reader yields it): in every run of either variant, on every header,
  it holds under each name of the output header the cell that input record \<open>i\<close> has
  under that name, except that every column named \<^verbatim>\<open>Allocated Slot\<close> holds the outcome.
  When the header has no \<^verbatim>\<open>Allocated Slot\<close> column, in either variant, the output header
  is the input header with that name appended and the output record is the cells of the
  input record under the header's names, in the header's order, followed by the
  outcome. When the header has the column, the extended variant keeps the header and
  writes the input record with the outcome in that column. The cells of an input record
  under the header's names are the cells of the line, a line shorter than the header
  filled up with empty cells, when the header's names are distinct.
\<close>

theorem order_and_fields:
  "(i < length (records (outfile (fst (allocate_slots_gym (header # lines))))) \<longrightarrow>
      records (outfile (fst (allocate_slots_gym (header # lines)))) ! i
        = map (\<lambda>k. if k = ''Allocated Slot''
                 then outcomes (outfile (fst (allocate_slots_gym (header # lines)))) ! i
                 else cell (items (DictReader header lines ! i)) k)
              (hd (outfile (fst (allocate_slots_gym (header # lines)))))) \<and>
   (i < length (records (outfile (fst (allocate_slots_iiitk (header # lines))))) \<longrightarrow>
      records (outfile (fst (allocate_slots_iiitk (header # lines)))) ! i
        = map (\<lambda>k. if k = ''Allocated Slot''
                 then outcomes (outfile (fst (allocate_slots_iiitk (header # lines)))) ! i
                 else cell (items (DictReader header lines ! i)) k)
              (hd (outfile (fst (allocate_slots_iiitk (header # lines)))))) \<and>
   (i < length (records (outfile (fst (allocate_slots_gym (header # lines))))) \<and>
    ''Allocated Slot'' \<notin> set header \<longrightarrow>
      hd (outfile (fst (allocate_slots_gym (header # lines)))) = header @ [''Allocated Slot''] \<and>
      records (outfile (fst (allocate_slots_gym (header # lines)))) ! i
        = map (cell (items (DictReader header lines ! i))) header
          @ [outcomes (outfile (fst (allocate_slots_gym (header # lines)))) ! i]) \<and>
   (i < length (records (outfile (fst (allocate_slots_iiitk (header # lines))))) \<and>
    ''Allocated Slot'' \<notin> set header \<longrightarrow>
      hd (outfile (fst (allocate_slots_iiitk (header # lines)))) = header @ [''Allocated Slot''] \<and>
      records (outfile (fst (allocate_slots_iiitk (header # lines)))) ! i
        = map (cell (items (DictReader header lines ! i))) header
          @ [outcomes (outfile (fst (allocate_slots_iiitk (header # lines)))) ! i]) \<and>
   (i < length (records (outfile (fst (allocate_slots_iiitk (header # lines))))) \<and>
    ''Allocated Slot'' \<in> set header \<longrightarrow>
      hd (outfile (fst (allocate_slots_iiitk (header # lines)))) = header \<and>
      records (outfile (fst (allocate_slots_iiitk (header # lines)))) ! i
        = map (\<lambda>k. if k = ''Allocated Slot''
                 then outcomes (outfile (fst (allocate_slots_iiitk (header # lines)))) ! i
                 else cell (items (DictReader header lines ! i)) k) header) \<and>
   (distinct header \<and> length line \<le> length header \<longrightarrow>
      map (cell (items (read_row header line))) header
        = line @ replicate (length header - length line) [])"
proof (intro conjI impI)
  assume h: "i < length (records (outfile (fst (allocate_slots_gym (header # lines)))))"
  from record_gym [OF h]
  show "records (outfile (fst (allocate_slots_gym (header # lines)))) ! i
        = map (\<lambda>k. if k = ''Allocated Slot''
                 then outcomes (outfile (fst (allocate_slots_gym (header # lines)))) ! i
                 else cell (items (DictReader header lines ! i)) k)
              (hd (outfile (fst (allocate_slots_gym (header # lines)))))"
    by simp
next
  assume h: "i < length (records (outfile (fst (allocate_slots_iiitk (header # lines)))))"
  from record_iiitk [OF h]
  show "records (outfile (fst (allocate_slots_iiitk (header # lines)))) ! i
        = map (\<lambda>k. if k = ''Allocated Slot''
                 then outcomes (outfile (fst (allocate_slots_iiitk (header # lines)))) ! i
                 else cell (items (DictReader header lines ! i)) k)
              (hd (outfile (fst (allocate_slots_iiitk (header # lines)))))"
    by simp
next
  assume h: "i < length (records (outfile (fst (allocate_slots_gym (header # lines))))) \<and>
    ''Allocated Slot'' \<notin> set header"
  from h record_gym [of i header lines]
  show "hd (outfile (fst (allocate_slots_gym (header # lines)))) = header @ [''Allocated Slot'']"
    by (simp add: fieldnames_gym_def)
  from h record_gym [of i header lines] map_appended [of header]
  show "records (outfile (fst (allocate_slots_gym (header # lines)))) ! i
        = map (cell (items (DictReader header lines ! i))) header
          @ [outcomes (outfile (fst (allocate_slots_gym (header # lines)))) ! i]"
    by (simp add: fieldnames_gym_def)
next
  assume h: "i < length (records (outfile (fst (allocate_slots_iiitk (header # lines))))) \<and>
    ''Allocated Slot'' \<notin> set header"
  from h record_iiitk [of i header lines]
  show "hd (outfile (fst (allocate_slots_iiitk (header # lines)))) = header @ [''Allocated Slot'']"
    by (simp add: fieldnames_iiitk_def)
  from h record_iiitk [of i header lines] map_appended [of header]
  show "records (outfile (fst (allocate_slots_iiitk (header # lines)))) ! i
        = map (cell (items (DictReader header lines ! i))) header
          @ [outcomes (outfile (fst (allocate_slots_iiitk (header # lines)))) ! i]"
    by (simp add: fieldnames_iiitk_def)
next
  assume h: "i < length (records (outfile (fst (allocate_slots_iiitk (header # lines))))) \<and>
    ''Allocated Slot'' \<in> set header"
  from h record_iiitk [of i header lines]
  show "hd (outfile (fst (allocate_slots_iiitk (header # lines)))) = header"
    by (simp add: fieldnames_iiitk_def)
  from h record_iiitk [of i header lines]
  show "records (outfile (fst (allocate_slots_iiitk (header # lines)))) ! i
        = map (\<lambda>k. if k = ''Allocated Slot''
                 then outcomes (outfile (fst (allocate_slots_iiitk (header # lines)))) ! i
                 else cell (items (DictReader header lines ! i)) k) header"
    by (simp add: fieldnames_iiitk_def)
next
  assume "distinct header \<and> length line \<le> length header"
  then show "map (cell (items (read_row header line))) header
        = line @ replicate (length header - length line) []"
    using cells_read_row by blast
qed

theorem order_and_fields_witness:
  "hd (outfile (fst (allocate_slots_gym ex_file_gym)))
     = [''Name'', ''SLOT PREFERENCE : 1'', ''SLOT PREFERENCE : 2'', ''SLOT PREFERENCE : 3'',
        ''Allocated Slot''] \<and>
   records (outfile (fst (allocate_slots_gym ex_file_gym))) ! 2
     = [''C'', ''SLOT 5 (7:00PM TO 8:30PM)'', [], [],
        outcomes (outfile (fst (allocate_slots_gym ex_file_gym))) ! 2] \<and>
   hd (outfile (fst (allocate_slots_iiitk ex_file_iiitk)))
     = [''Email'', ''SLOT PREFERENCE : 1'', ''SLOT PREFERENCE : 2'', ''Allocated Slot''] \<and>
   records (outfile (fst (allocate_slots_iiitk ex_file_iiitk))) ! 1
     = [''b@other.com'', ''SLOT 7 (7:00PM TO 8:30PM)'', [],
        outcomes (outfile (fst (allocate_slots_iiitk ex_file_iiitk))) ! 1] \<and>
   hd (outfile (fst (allocate_slots_iiitk ex_file_annotated)))
     = [''Email'', ''SLOT PREFERENCE : 1'', ''Allocated Slot''] \<and>
   records (outfile (fst (allocate_slots_iiitk ex_file_annotated))) ! 0
     = [''a@iiitk.ac.in'', ''SLOT 6 (5:30PM TO 7:00PM)'',
        outcomes (outfile (fst (allocate_slots_iiitk ex_file_annotated))) ! 0] \<and>
   records (outfile (fst (allocate_slots_gym ex_file_gym_annotated))) ! 0
     = [''SLOT 5 (7:00PM TO 8:30PM)'', ''SLOT 4 (5:30PM TO 7:00PM)'', [],
        outcomes (outfile (fst (allocate_slots_gym ex_file_gym_annotated))) ! 0,
        outcomes (outfile (fst (allocate_slots_gym ex_file_gym_annotated))) ! 0] \<and>
   records (outfile (fst (allocate_slots_iiitk
      [[''Name'', ''Name'', ''Email''], [''first'', ''last'', ''a@other.com'']]))) ! 0
     = [''last'', ''last'', ''a@other.com'',
        outcomes (outfile (fst (allocate_slots_iiitk
          [[''Name'', ''Name'', ''Email''], [''first'', ''last'', ''a@other.com'']]))) ! 0]"
proof -
  let ?hg = "[''Name'', ''SLOT PREFERENCE : 1'', ''SLOT PREFERENCE : 2'', ''SLOT PREFERENCE : 3'']"
  let ?lg = "[[''A'', ''SLOT 5 (7:00PM TO 8:30PM)'', ''SLOT 4 (5:30PM TO 7:00PM)'', []],
      [],
      [''B'', ''SLOT 4 (5:30PM TO 7:00PM)'', ''SLOT 5 (7:00PM TO 8:30PM)'', []],
      [''C'', ''SLOT 5 (7:00PM TO 8:30PM)'']]"
  let ?hi = "[''Email'', ''SLOT PREFERENCE : 1'', ''SLOT PREFERENCE : 2'']"
  let ?li = "[[''a@iiitk.ac.in'', ''SLOT 6 (5:30PM TO 7:00PM)'', ''SLOT 7 (7:00PM TO 8:30PM)''],
      [''b@other.com'', ''SLOT 7 (7:00PM TO 8:30PM)'', []],
      ['' B@IIITK.AC.IN '', '' SLOT 6 (5:30PM TO 7:00PM) '', ''SLOT 7 (7:00PM TO 8:30PM)''],
      [''c@iiitk.ac.in'', ''SLOT 6 (5:30PM TO 7:00PM)'', ''SLOT 7 (7:00PM TO 8:30PM)'']]"
  let ?ha = "[''Email'', ''SLOT PREFERENCE : 1'', ''Allocated Slot'']"
  let ?la = "[[''a@iiitk.ac.in'', ''SLOT 6 (5:30PM TO 7:00PM)'', ''No slot allocated'']]"
  let ?hb = "[''SLOT PREFERENCE : 1'', ''SLOT PREFERENCE : 2'', ''SLOT PREFERENCE : 3'',
              ''Allocated Slot'']"
  let ?lb = "[[''SLOT 5 (7:00PM TO 8:30PM)'', ''SLOT 4 (5:30PM TO 7:00PM)'', [],
               ''No slot allocated'']]"
  let ?hr = "[''Name'', ''Name'', ''Email'']"
  let ?lr = "[[''first'', ''last'', ''a@other.com'']]"
  have eg: "ex_file_gym = ?hg # ?lg" by (simp add: ex_file_gym_def)
  have ei: "ex_file_iiitk = ?hi # ?li" by (simp add: ex_file_iiitk_def)
  have ea: "ex_file_annotated = ?ha # ?la" by (simp add: ex_file_annotated_def)
  have eb: "ex_file_gym_annotated = ?hb # ?lb" by (simp add: ex_file_gym_annotated_def)
  \<comment> \<open>base variant, the short third line\<close>
  have g1: "2 < length (records (outfile (fst (allocate_slots_gym (?hg # ?lg))))) \<and>
      ''Allocated Slot'' \<notin> set ?hg" by code_simp
  have g2: "DictReader ?hg ?lg ! 2 = read_row ?hg [''C'', ''SLOT 5 (7:00PM TO 8:30PM)'']"
    by (simp add: DictReader_def)
  have g3: "distinct ?hg \<and> length [''C'', ''SLOT 5 (7:00PM TO 8:30PM)''] \<le> length ?hg" by simp
  have g4: "map (cell (items (read_row ?hg [''C'', ''SLOT 5 (7:00PM TO 8:30PM)'']))) ?hg
      = [''C'', ''SLOT 5 (7:00PM TO 8:30PM)'', [], []]"
    using order_and_fields [of _ ?hg _ "[''C'', ''SLOT 5 (7:00PM TO 8:30PM)'']",
        THEN conjunct2, THEN conjunct2, THEN conjunct2, THEN conjunct2, THEN conjunct2,
        rule_format, OF g3]
    by (simp add: numeral_eq_Suc)
  have g: "hd (outfile (fst (allocate_slots_gym (?hg # ?lg)))) = ?hg @ [''Allocated Slot''] \<and>
      records (outfile (fst (allocate_slots_gym (?hg # ?lg)))) ! 2
        = [''C'', ''SLOT 5 (7:00PM TO 8:30PM)'', [], []]
          @ [outcomes (outfile (fst (allocate_slots_gym (?hg # ?lg)))) ! 2]"
    using order_and_fields [of 2 ?hg ?lg, THEN conjunct2, THEN conjunct2, THEN conjunct1,
        rule_format, OF g1] g2 g4 by simp
  \<comment> \<open>extended variant, the second line\<close>
  have i1: "1 < length (records (outfile (fst (allocate_slots_iiitk (?hi # ?li))))) \<and>
      ''Allocated Slot'' \<notin> set ?hi" by code_simp
  have i2: "DictReader ?hi ?li ! 1 = read_row ?hi [''b@other.com'', ''SLOT 7 (7:00PM TO 8:30PM)'', []]"
    by (simp add: DictReader_def)
  have i3: "distinct ?hi \<and> length [''b@other.com'', ''SLOT 7 (7:00PM TO 8:30PM)'', []] \<le> length ?hi"
    by simp
  have i4: "map (cell (items (read_row ?hi [''b@other.com'', ''SLOT 7 (7:00PM TO 8:30PM)'', []]))) ?hi
      = [''b@other.com'', ''SLOT 7 (7:00PM TO 8:30PM)'', []]"
    using order_and_fields [of _ ?hi _ "[''b@other.com'', ''SLOT 7 (7:00PM TO 8:30PM)'', []]",
        THEN conjunct2, THEN conjunct2, THEN conjunct2, THEN conjunct2, THEN conjunct2,
        rule_format, OF i3]
    by simp
  have i: "hd (outfile (fst (allocate_slots_iiitk (?hi # ?li)))) = ?hi @ [''Allocated Slot''] \<and>
      records (outfile (fst (allocate_slots_iiitk (?hi # ?li)))) ! 1
        = [''b@other.com'', ''SLOT 7 (7:00PM TO 8:30PM)'', []]
          @ [outcomes (outfile (fst (allocate_slots_iiitk (?hi # ?li)))) ! 1]"
    using order_and_fields [of 1 ?hi ?li, THEN conjunct2, THEN conjunct2, THEN conjunct2,
        THEN conjunct1, rule_format, OF i1] i2 i4
    by simp
  \<comment> \<open>extended variant, a header that has the column\<close>
  have a1: "0 < length (records (outfile (fst (allocate_slots_iiitk (?ha # ?la))))) \<and>
      ''Allocated Slot'' \<in> set ?ha" by code_simp
  have a2: "cell (items (DictReader ?ha ?la ! 0)) ''Email'' = ''a@iiitk.ac.in''"
      "cell (items (DictReader ?ha ?la ! 0)) ''SLOT PREFERENCE : 1'' = ''SLOT 6 (5:30PM TO 7:00PM)''"
    by code_simp+
  have a: "hd (outfile (fst (allocate_slots_iiitk (?ha # ?la)))) = ?ha \<and>
      records (outfile (fst (allocate_slots_iiitk (?ha # ?la)))) ! 0
        = [''a@iiitk.ac.in'', ''SLOT 6 (5:30PM TO 7:00PM)'',
           outcomes (outfile (fst (allocate_slots_iiitk (?ha # ?la)))) ! 0]"
    using order_and_fields [of 0 ?ha ?la, THEN conjunct2, THEN conjunct2, THEN conjunct2,
        THEN conjunct2, THEN conjunct1, rule_format, OF a1] a2 by simp
  \<comment> \<open>base variant, a header that has the column\<close>
  have b1: "0 < length (records (outfile (fst (allocate_slots_gym (?hb # ?lb)))))" by code_simp
  have b2: "hd (outfile (fst (allocate_slots_gym (?hb # ?lb)))) = ?hb @ [''Allocated Slot'']"
    by code_simp
  have b3: "cell (items (DictReader ?hb ?lb ! 0)) ''SLOT PREFERENCE : 1'' = ''SLOT 5 (7:00PM TO 8:30PM)''"
      "cell (items (DictReader ?hb ?lb ! 0)) ''SLOT PREFERENCE : 2'' = ''SLOT 4 (5:30PM TO 7:00PM)''"
      "cell (items (DictReader ?hb ?lb ! 0)) ''SLOT PREFERENCE : 3'' = []"
    by code_simp+
  have b: "records (outfile (fst (allocate_slots_gym (?hb # ?lb)))) ! 0
        = [''SLOT 5 (7:00PM TO 8:30PM)'', ''SLOT 4 (5:30PM TO 7:00PM)'', [],
           outcomes (outfile (fst (allocate_slots_gym (?hb # ?lb)))) ! 0,
           outcomes (outfile (fst (allocate_slots_gym (?hb # ?lb)))) ! 0]"
    using order_and_fields [of 0 ?hb ?lb, THEN conjunct1, rule_format, OF b1] b2 b3 by simp
  \<comment> \<open>extended variant, a repeated column name\<close>
  have r1: "0 < length (records (outfile (fst (allocate_slots_iiitk (?hr # ?lr)))))" by code_simp
  have r2: "hd (outfile (fst (allocate_slots_iiitk (?hr # ?lr)))) = ?hr @ [''Allocated Slot'']"
    by code_simp
  have r3: "cell (items (DictReader ?hr ?lr ! 0)) ''Name'' = ''last''"
      "cell (items (DictReader ?hr ?lr ! 0)) ''Email'' = ''a@other.com''"
    by code_simp+
  have r: "records (outfile (fst (allocate_slots_iiitk (?hr # ?lr)))) ! 0
        = [''last'', ''last'', ''a@other.com'',
           outcomes (outfile (fst (allocate_slots_iiitk (?hr # ?lr)))) ! 0]"
    using order_and_fields [of 0 ?hr ?lr, THEN conjunct2, THEN conjunct1, rule_format, OF r1]
      r2 r3 by simp
  from g i a b r show ?thesis unfolding eg ei ea eb by simp
qed

subsection \<open>The email check\<close>








text \<open>
  C10 (a row without an email gets the outcome for an invalid email domain, and no hard
  error). The code at three inputs. On a line that ends before the \<^verbatim>\<open>Email\<close> column
  the reader stores \<^verbatim>\<open>None\<close> under \<^verbatim>\<open>Email\<close>, the default of \<^verbatim>\<open>row.get\<close> does not
  apply, and \<^verbatim>\<open>None.strip()\<close> raises \<^verbatim>\<open>AttributeError\<close>: no record is written. On a
  header without an \<^verbatim>\<open>Email\<close> column, and on a cell of blanks, the outcome is the text
  for an invalid email domain and the capacity dictionary is unchanged.
\<close>

theorem missing_email_raises:
  "snd (allocate_slots_iiitk
         [[''Name'', ''Email'', ''SLOT PREFERENCE : 1''], [''Bob'']]) = Some AttributeError \<and>
   records (outfile (fst (allocate_slots_iiitk
         [[''Name'', ''Email'', ''SLOT PREFERENCE : 1''], [''Bob'']]))) = [] \<and>
   allocate_slots_iiitk
         [[''Name'', ''SLOT PREFERENCE : 1''], [''Bob'', ''SLOT 1 (4:30AM TO 5:30 AM)'']]
     = (\<lparr>capacity = capacity_iiitk,
         outfile = [[''Name'', ''SLOT PREFERENCE : 1'', ''Allocated Slot''],
                    [''Bob'', ''SLOT 1 (4:30AM TO 5:30 AM)'', ''Invalid email domain'']]\<rparr>, None) \<and>
   allocate_slots_iiitk
         [[''Name'', ''Email'', ''SLOT PREFERENCE : 1''],
          [''Bob'', ''  '', ''SLOT 1 (4:30AM TO 5:30 AM)'']]
     = (\<lparr>capacity = capacity_iiitk,
         outfile = [[''Name'', ''Email'', ''SLOT PREFERENCE : 1'', ''Allocated Slot''],
                    [''Bob'', ''  '', ''SLOT 1 (4:30AM TO 5:30 AM)'', ''Invalid email domain'']]\<rparr>,
        None)"
proof (intro conjI)
  show "snd (allocate_slots_iiitk
         [[''Name'', ''Email'', ''SLOT PREFERENCE : 1''], [''Bob'']]) = Some AttributeError"
    by code_simp
  show "records (outfile (fst (allocate_slots_iiitk
         [[''Name'', ''Email'', ''SLOT PREFERENCE : 1''], [''Bob'']]))) = []"
    by code_simp
  have s1: "get_strip (read_row [''Name'', ''SLOT PREFERENCE : 1'']
              [''Bob'', ''SLOT 1 (4:30AM TO 5:30 AM)'']) ''Email'' = Inr []" by code_simp
  have s2: "get_strip (read_row [''Name'', ''Email'', ''SLOT PREFERENCE : 1'']
              [''Bob'', ''  '', ''SLOT 1 (4:30AM TO 5:30 AM)'']) ''Email'' = Inr []" by code_simp
  have v: "\<not> valid_email (lower [])" by code_simp
  have w1: "writerow [''Name'', ''SLOT PREFERENCE : 1'', ''Allocated Slot'']
       (set_allocated (read_row [''Name'', ''SLOT PREFERENCE : 1'']
              [''Bob'', ''SLOT 1 (4:30AM TO 5:30 AM)'']) ''Invalid email domain'')
     = Inr [''Bob'', ''SLOT 1 (4:30AM TO 5:30 AM)'', ''Invalid email domain'']" by code_simp
  have w2: "writerow [''Name'', ''Email'', ''SLOT PREFERENCE : 1'', ''Allocated Slot'']
       (set_allocated (read_row [''Name'', ''Email'', ''SLOT PREFERENCE : 1'']
              [''Bob'', ''  '', ''SLOT 1 (4:30AM TO 5:30 AM)'']) ''Invalid email domain'')
     = Inr [''Bob'', ''  '', ''SLOT 1 (4:30AM TO 5:30 AM)'', ''Invalid email domain'']" by code_simp
  show "allocate_slots_iiitk
         [[''Name'', ''SLOT PREFERENCE : 1''], [''Bob'', ''SLOT 1 (4:30AM TO 5:30 AM)'']]
     = (\<lparr>capacity = capacity_iiitk,
         outfile = [[''Name'', ''SLOT PREFERENCE : 1'', ''Allocated Slot''],
                    [''Bob'', ''SLOT 1 (4:30AM TO 5:30 AM)'', ''Invalid email domain'']]\<rparr>, None)"
    using s1 v w1
    by (simp add: allocate_slots_iiitk_def DictReader_def fieldnames_iiitk_def process_row_iiitk_def)
  show "allocate_slots_iiitk
         [[''Name'', ''Email'', ''SLOT PREFERENCE : 1''],
          [''Bob'', ''  '', ''SLOT 1 (4:30AM TO 5:30 AM)'']]
     = (\<lparr>capacity = capacity_iiitk,
         outfile = [[''Name'', ''Email'', ''SLOT PREFERENCE : 1'', ''Allocated Slot''],
                    [''Bob'', ''  '', ''SLOT 1 (4:30AM TO 5:30 AM)'', ''Invalid email domain'']]\<rparr>,
        None)"
    using s2 v w2
    by (simp add: allocate_slots_iiitk_def DictReader_def fieldnames_iiitk_def process_row_iiitk_def)
qed

subsection \<open>Priority of earlier applicants\<close>

lemma run_later:
  assumes step: "\<And>r st. step_spec fn st (body r st)"
    and run: "for_rows body rows \<lparr>capacity = cap, outfile = [fn]\<rparr> = (st', err)"
    and ij: "i < j" "j < length (records (outfile st'))"
    and si: "for_rows body (take i rows) \<lparr>capacity = cap, outfile = [fn]\<rparr> = (sti, None)"
    and b: "body (rows ! i) sti = (sti', None)"
    and rest: "for_rows body (drop (Suc i) rows) sti' = (st', err)"
    and z: "capacity sti' S = Some 0" "S \<notin> sentinels"
  shows "outcomes (outfile st') ! j \<noteq> S"
proof -
  let ?st = "\<lparr>capacity = cap, outfile = [fn]\<rparr>"
  from loop_out [of fn body, OF step run] obtain new where
    new: "outfile st' = [fn] @ new" by auto
  from ij new have il: "i < length new" by simp
  from loop_nth [of fn body rows ?st st' err new i, OF step run _ il] new
  have ir: "i < length rows" by simp
  from loop_out [of fn body, OF step si] ir obtain newA where
    a: "outfile sti = [fn] @ newA" "length newA = i" by auto
  have sb: "step_spec fn sti (sti', None)" using step [of sti "rows ! i"] b by simp
  from step_out [OF sb] obtain line where l: "outfile sti' = outfile sti @ [line]" by auto
  from loop_out [of fn body, OF step rest] obtain newB where
    nb: "outfile st' = outfile sti' @ newB" by blast
  from new a l nb have eq: "new = newA @ line # newB" by simp
  from ij new eq a(2) have jb: "j - Suc i < length newB" by auto
  have "new ! j = newB ! (j - Suc i)"
    using eq a(2) ij(1) by (simp add: nth_append nth_Cons')
  moreover have "newB ! (j - Suc i) \<in> set newB" using jb by simp
  ultimately have "new ! j \<in> set newB" by simp
  from loop_outcomes [of fn body, OF step rest nb this] z
  have "allocated_of fn (new ! j) \<noteq> S" by auto
  moreover have "outcomes (outfile st') ! j = allocated_of fn (new ! j)"
    using new ij(2) by simp
  ultimately show ?thesis by simp
qed

lemma priority_gym:
  assumes ij: "i < j" "j < length (records (outfile (fst (allocate_slots_gym (header # lines)))))"
    and c1: "capacity (before_gym header lines i) S = Some 1"
    and ff: "first_fit (capacity (before_gym header lines i))
               (labels_gym pref_keys_gym (DictReader header lines ! i)) = Some S"
  shows "outcomes (outfile (fst (allocate_slots_gym (header # lines)))) ! i = S \<and>
         outcomes (outfile (fst (allocate_slots_gym (header # lines)))) ! j \<noteq> S"
proof -
  let ?fn = "fieldnames_gym header"
  let ?body = "process_row_gym ?fn"
  let ?rows = "DictReader header lines"
  let ?st = "\<lparr>capacity = capacity_gym, outfile = [?fn]\<rparr>"
  let ?res = "allocate_slots_gym (header # lines)"
  have step: "\<And>r st. step_spec ?fn st (?body r st)" by (rule step_spec_gym [OF fieldnames_gym_has])
  have run: "for_rows ?body ?rows ?st = (fst ?res, snd ?res)" by (simp add: allocate_slots_gym_Cons)
  from loop_out [of ?fn ?body, OF step run] obtain new where
    new: "outfile (fst ?res) = [?fn] @ new" by auto
  from ij have i: "i < length (records (outfile (fst ?res)))" by simp
  from run_nth [of ?fn ?body, OF step run i] obtain sti sti' where
    h: "for_rows ?body (take i ?rows) ?st = (sti, None)"
       "dom (capacity sti) = dom capacity_gym"
       "?body (?rows ! i) sti = (sti', None)"
       "outfile sti' = outfile sti @ [records (outfile (fst ?res)) ! i]"
       "for_rows ?body (drop (Suc i) ?rows) sti' = (fst ?res, snd ?res)"
    by blast
  have bs: "before_gym header lines i = sti" using h(1) by (simp add: before_gym_def)
  have ne: "capacity sti [] = None"
    using h(2) capacity_gym_keys [of "[]"] by (metis domIff option.exhaust)
  from c1 bs h(2) obtain c0 where "capacity_gym S = Some c0" by (metis domD domI)
  from capacity_gym_keys [OF this] have sn: "S \<notin> sentinels" by simp
  from pass_gym [OF fieldnames_gym_has h(3) ne] ff bs c1
  have p: "capacity sti' = (capacity sti)(S \<mapsto> 0)" "allocated_of ?fn (last (outfile sti')) = S"
    by auto
  from p(2) h(4) have "allocated_of ?fn (records (outfile (fst ?res)) ! i) = S" by simp
  then have oi: "outcomes (outfile (fst ?res)) ! i = S" using new i by simp
  from p(1) have z: "capacity sti' S = Some 0" by simp
  from run_later [of ?fn ?body, OF step run ij h(1) h(3) h(5) z sn] oi
  show ?thesis by simp
qed

lemma priority_iiitk:
  assumes ij: "i < j" "j < length (records (outfile (fst (allocate_slots_iiitk (header # lines)))))"
    and em: "get_strip (DictReader header lines ! i) ''Email'' = Inr email"
            "valid_email (lower email)"
    and c1: "capacity (before_iiitk header lines i) S = Some 1"
    and ff: "first_fit (capacity (before_iiitk header lines i))
               (labels_iiitk preference_columns (DictReader header lines ! i)) = Some S"
  shows "outcomes (outfile (fst (allocate_slots_iiitk (header # lines)))) ! i = S \<and>
         outcomes (outfile (fst (allocate_slots_iiitk (header # lines)))) ! j \<noteq> S"
proof -
  let ?fn = "fieldnames_iiitk header"
  let ?body = "process_row_iiitk ?fn"
  let ?rows = "DictReader header lines"
  let ?st = "\<lparr>capacity = capacity_iiitk, outfile = [?fn]\<rparr>"
  let ?res = "allocate_slots_iiitk (header # lines)"
  have step: "\<And>r st. step_spec ?fn st (?body r st)"
    by (rule step_spec_iiitk [OF fieldnames_iiitk_has])
  have run: "for_rows ?body ?rows ?st = (fst ?res, snd ?res)"
    by (simp add: allocate_slots_iiitk_Cons)
  from loop_out [of ?fn ?body, OF step run] obtain new where
    new: "outfile (fst ?res) = [?fn] @ new" by auto
  from ij have i: "i < length (records (outfile (fst ?res)))" by simp
  from run_nth [of ?fn ?body, OF step run i] obtain sti sti' where
    h: "for_rows ?body (take i ?rows) ?st = (sti, None)"
       "dom (capacity sti) = dom capacity_iiitk"
       "?body (?rows ! i) sti = (sti', None)"
       "outfile sti' = outfile sti @ [records (outfile (fst ?res)) ! i]"
       "for_rows ?body (drop (Suc i) ?rows) sti' = (fst ?res, snd ?res)"
    by blast
  have bs: "before_iiitk header lines i = sti" using h(1) by (simp add: before_iiitk_def)
  have ne: "capacity sti [] = None"
    using h(2) capacity_iiitk_keys [of "[]"] by (metis domIff option.exhaust)
  from c1 bs h(2) obtain c0 where "capacity_iiitk S = Some c0" by (metis domD domI)
  from capacity_iiitk_keys [OF this] have sn: "S \<notin> sentinels" by simp
  from pass_iiitk [OF fieldnames_iiitk_has h(3) em ne] ff bs c1
  have p: "capacity sti' = (capacity sti)(S \<mapsto> 0)" "allocated_of ?fn (last (outfile sti')) = S"
    by auto
  from p(2) h(4) have "allocated_of ?fn (records (outfile (fst ?res)) ! i) = S" by simp
  then have oi: "outcomes (outfile (fst ?res)) ! i = S" using new i by simp
  from p(1) have z: "capacity sti' S = Some 0" by simp
  from run_later [of ?fn ?body, OF step run ij h(1) h(3) h(5) z sn] oi
  show ?thesis by simp
qed

text \<open>
  Two applicants state the same single preference, a slot with one place left. The first
  fails the domain check of the extended variant: the outcome is the text for an invalid
  email domain and the second applicant receives the slot.
\<close>

theorem first_come_counterexample:
  "capacity (before_iiitk ex_priority_header ex_priority_lines 0)
     ''SLOT 6 (5:30PM TO 7:00PM)'' = Some 1 \<and>
   first_fit (capacity (before_iiitk ex_priority_header ex_priority_lines 0))
     (labels_iiitk preference_columns (DictReader ex_priority_header ex_priority_lines ! 0))
     = Some ''SLOT 6 (5:30PM TO 7:00PM)'' \<and>
   labels_iiitk preference_columns (DictReader ex_priority_header ex_priority_lines ! 1)
     = labels_iiitk preference_columns (DictReader ex_priority_header ex_priority_lines ! 0) \<and>
   outcomes (outfile (fst (allocate_slots_iiitk (ex_priority_header # ex_priority_lines))))
     = [''Invalid email domain'', ''SLOT 6 (5:30PM TO 7:00PM)'']"
  by code_simp

text \<open>
  C6 (first come, first served), as amended. In a run, let applicant \<open>i\<close> come before
  applicant \<open>j\<close>, both with an output record written, let slot \<open>S\<close> have capacity exactly
  one in the state in which applicant \<open>i\<close> is processed, and let \<open>S\<close> be the first
  available label of applicant \<open>i\<close> in that state; in the extended variant let the email of
  applicant \<open>i\<close> pass the domain check. Then the outcome of applicant \<open>i\<close> is \<open>S\<close> and the
  outcome of applicant \<open>j\<close> is not \<open>S\<close>, whatever applicant \<open>j\<close> prefers.
\<close>

theorem first_come_priority:
  "(i < j \<and> j < length (records (outfile (fst (allocate_slots_gym (header # lines))))) \<and>
    capacity (before_gym header lines i) S = Some 1 \<and>
    first_fit (capacity (before_gym header lines i))
      (labels_gym pref_keys_gym (DictReader header lines ! i)) = Some S \<longrightarrow>
      outcomes (outfile (fst (allocate_slots_gym (header # lines)))) ! i = S \<and>
      outcomes (outfile (fst (allocate_slots_gym (header # lines)))) ! j \<noteq> S) \<and>
   (i < j \<and> j < length (records (outfile (fst (allocate_slots_iiitk (header # lines))))) \<and>
    get_strip (DictReader header lines ! i) ''Email'' = Inr email \<and> valid_email (lower email) \<and>
    capacity (before_iiitk header lines i) S = Some 1 \<and>
    first_fit (capacity (before_iiitk header lines i))
      (labels_iiitk preference_columns (DictReader header lines ! i)) = Some S \<longrightarrow>
      outcomes (outfile (fst (allocate_slots_iiitk (header # lines)))) ! i = S \<and>
      outcomes (outfile (fst (allocate_slots_iiitk (header # lines)))) ! j \<noteq> S)"
  using priority_gym [of i j header lines S] priority_iiitk [of i j header lines email S]
  by blast

theorem first_come_priority_witness:
  "capacity (before_gym ex_queue_header ex_queue_lines 4) ''SLOT 4 (5:30PM TO 7:00PM)'' = Some 1 \<and>
   outcomes (outfile (fst (allocate_slots_gym (ex_queue_header # ex_queue_lines)))) ! 4
     = ''SLOT 4 (5:30PM TO 7:00PM)'' \<and>
   outcomes (outfile (fst (allocate_slots_gym (ex_queue_header # ex_queue_lines)))) ! 5
     \<noteq> ''SLOT 4 (5:30PM TO 7:00PM)'' \<and>
   capacity (before_iiitk (hd ex_file_iiitk) (tl ex_file_iiitk) 0) ''SLOT 6 (5:30PM TO 7:00PM)''
     = Some 1 \<and>
   outcomes (outfile (fst (allocate_slots_iiitk (hd ex_file_iiitk # tl ex_file_iiitk)))) ! 0
     = ''SLOT 6 (5:30PM TO 7:00PM)'' \<and>
   outcomes (outfile (fst (allocate_slots_iiitk (hd ex_file_iiitk # tl ex_file_iiitk)))) ! 2
     \<noteq> ''SLOT 6 (5:30PM TO 7:00PM)''"
proof -
  let ?S4 = "''SLOT 4 (5:30PM TO 7:00PM)''"
  let ?S6 = "''SLOT 6 (5:30PM TO 7:00PM)''"
  have g: "(4::nat) < 5 \<and>
      5 < length (records (outfile (fst (allocate_slots_gym (ex_queue_header # ex_queue_lines))))) \<and>
      capacity (before_gym ex_queue_header ex_queue_lines 4) ?S4 = Some 1 \<and>
      first_fit (capacity (before_gym ex_queue_header ex_queue_lines 4))
        (labels_gym pref_keys_gym (DictReader ex_queue_header ex_queue_lines ! 4)) = Some ?S4"
    by code_simp
  have i: "(0::nat) < 2 \<and>
      2 < length (records (outfile (fst (allocate_slots_iiitk (hd ex_file_iiitk # tl ex_file_iiitk))))) \<and>
      get_strip (DictReader (hd ex_file_iiitk) (tl ex_file_iiitk) ! 0) ''Email'' = Inr ''a@iiitk.ac.in'' \<and>
      valid_email (lower ''a@iiitk.ac.in'') \<and>
      capacity (before_iiitk (hd ex_file_iiitk) (tl ex_file_iiitk) 0) ?S6 = Some 1 \<and>
      first_fit (capacity (before_iiitk (hd ex_file_iiitk) (tl ex_file_iiitk) 0))
        (labels_iiitk preference_columns (DictReader (hd ex_file_iiitk) (tl ex_file_iiitk) ! 0))
        = Some ?S6"
    by code_simp
  from first_come_priority [THEN conjunct1, rule_format, OF g]
    first_come_priority [THEN conjunct2, rule_format, OF i] g i
  show ?thesis by blast
qed

end
